theory Spec2Isabelle
  imports Main "HOL-Library.Multiset"
begin

section \<open>The message store\<close>

text \<open>
  The messaging slice of the marketplace: \<^verbatim>\<open>backend/controllers/messageController.js\<close>
  over the two document collections it reads and writes, and the two polling React
  components that consume it.

  An ObjectId is a natural number; the driver's generator of fresh identifiers is the
  counter \<open>nextId\<close> of the store. A timestamp is an integer (milliseconds), and the clock
  reading of a request is an argument \<open>now\<close> of its handler. \<open>req.user.id\<close> is the
  identifier of the authenticated user; Mongoose compares it with stored ObjectIds by
  value (\<open>includes\<close> on a document array, \<open>$in\<close>, \<open>$ne\<close>, \<open>$nin\<close>, \<open>$all\<close> cast their
  operands), which is equality of identifiers here.
\<close>

type_synonym oid = nat
type_synonym date = int

text \<open>\<open>new ErrorResponse(message, statusCode)\<close>, handed to \<open>next\<close>; the text is left out.\<close>

datatype error = ErrorResponse (statusCode: nat)

text \<open>
  Modelled from the spec: the schema \<^verbatim>\<open>models/Message.js\<close> is not part of the code at hand.
  A message has an identifier, its conversation, its sender, a text, the read-set
  \<open>readBy\<close> (an array of user identifiers) and a creation time. The controller also
  filters on and sets a flag \<open>read\<close>, of which the spec's message knows nothing: a
  document carries it or not (\<open>None\<close>), and \<open>Message.create\<close> stores a document without it.
\<close>

record message =
  m_id :: oid
  conversationId :: oid
  senderId :: oid
  content :: string
  readBy :: "oid list"
  read :: "bool option"
  m_createdAt :: date

text \<open>
  A conversation document, after \<open>ConversationSchema\<close> (the schema follows the item schema
  in \<^verbatim>\<open>backend/models/Item.js\<close>): the participants, an optional item, an optional
  reference to the last message, and, by \<open>timestamps: true\<close>, the creation and last-update
  times that \<open>save()\<close> maintains. \<open>itemId = None\<close> and \<open>lastMessage = None\<close> are absent
  fields.
\<close>

record conversation =
  c_id :: oid
  participants :: "oid list"
  itemId :: "oid option"
  lastMessage :: "oid option"
  c_createdAt :: date
  updatedAt :: date

text \<open>
  The database: the identifiers of the user documents (the controller only asks whether a
  user exists), the two collections in insertion order, and the identifier generator.
  Within a collection \<open>_id\<close> is unique; \<open>wellFormed\<close> below says so.
\<close>

record store =
  users :: "oid list"
  conversations :: "conversation list"
  messages :: "message list"
  nextId :: oid

subsection \<open>Queries and updates of the driver\<close>

definition findById :: "conversation list \<Rightarrow> oid \<Rightarrow> conversation option" where
  "findById cs i = find (\<lambda>c. c_id c = i) cs"

definition countDocuments :: "('a \<Rightarrow> bool) \<Rightarrow> 'a list \<Rightarrow> nat" where
  "countDocuments P ds = length (filter P ds)"

text \<open>
  \<open>updateMany(filter, update)\<close>: every matching document is updated; \<open>modifiedCount\<close>
  counts the documents the update changed.
\<close>

definition updateMany :: "('a \<Rightarrow> bool) \<Rightarrow> ('a \<Rightarrow> 'a) \<Rightarrow> 'a list \<Rightarrow> 'a list \<times> nat" where
  "updateMany P f ds =
     (map (\<lambda>d. if P d then f d else d) ds, length (filter (\<lambda>d. P d \<and> f d \<noteq> d) ds))"

definition addToSet :: "'a \<Rightarrow> 'a list \<Rightarrow> 'a list" where
  "addToSet x xs = (if x \<in> set xs then xs else xs @ [x])"

text \<open>
  \<open>Message.create\<close> gives the document its identifier and its creation time and inserts
  it; the document has no \<open>read\<close> flag (see the schema above).
\<close>

definition Message_create ::
  "store \<Rightarrow> oid \<Rightarrow> oid \<Rightarrow> string \<Rightarrow> oid list \<Rightarrow> date \<Rightarrow> store \<times> message" where
  "Message_create s cid sid txt rb now =
     (let m = \<lparr>m_id = nextId s, conversationId = cid, senderId = sid, content = txt,
                readBy = rb, read = None, m_createdAt = now\<rparr>
      in (s\<lparr>messages := messages s @ [m], nextId := Suc (nextId s)\<rparr>, m))"

text \<open>\<open>save()\<close> of a new document inserts it; of a loaded one it writes the changed paths.\<close>

definition Conversation_insert :: "store \<Rightarrow> conversation \<Rightarrow> store" where
  "Conversation_insert s c = s\<lparr>conversations := conversations s @ [c]\<rparr>"

definition Conversation_update :: "store \<Rightarrow> oid \<Rightarrow> (conversation \<Rightarrow> conversation) \<Rightarrow> store" where
  "Conversation_update s i f =
     s\<lparr>conversations := map (\<lambda>c. if c_id c = i then f c else c) (conversations s)\<rparr>"

section \<open>The controller\<close>

text \<open>
  A handler takes the store and returns the store it leaves and its response: \<open>Inl\<close> the
  error it hands to \<open>next\<close>, \<open>Inr\<close> the data of its JSON reply.
  A field of a request body is \<open>None\<close> when it is missing. A text field is falsy
  (\<open>!content\<close>) when it is missing or the empty string, an identifier when it is missing.
\<close>

subsection \<open>getConversations\<close>

text \<open>
  The conversations of the user, newest update first, each with its unread count. The
  three \<open>populate\<close> calls replace references by the documents they name and do not change
  which conversations are returned, their order or the count; they are left out.
\<close>

definition unreadFilter :: "oid \<Rightarrow> oid \<Rightarrow> message \<Rightarrow> bool" where
  "unreadFilter cid uid m =
     (conversationId m = cid \<and> senderId m \<noteq> uid \<and> uid \<notin> set (readBy m))"

definition getConversations :: "store \<Rightarrow> oid \<Rightarrow> (conversation \<times> nat) list" where
  "getConversations s uid =
     (let convs = sort_key (\<lambda>c. - updatedAt c)
                    (filter (\<lambda>c. uid \<in> set (participants c)) (conversations s))
      in map (\<lambda>conv. (conv, countDocuments (unreadFilter (c_id conv) uid) (messages s))) convs)"

subsection \<open>getConversation\<close>

text \<open>
  The participants are populated before the check: a participant whose user document is
  gone is dropped from the array, and \<open>some\<close> runs over what is left.
\<close>

definition getConversation :: "store \<Rightarrow> oid \<Rightarrow> oid \<Rightarrow> store \<times> (error + conversation)" where
  "getConversation s i uid =
     (case findById (conversations s) i of
        None \<Rightarrow> (s, Inl (ErrorResponse 404))
      | Some conv \<Rightarrow>
          if \<not> list_ex (\<lambda>p. p = uid) (filter (\<lambda>p. p \<in> set (users s)) (participants conv))
          then (s, Inl (ErrorResponse 401))
          else (s, Inr conv))"

subsection \<open>createConversation\<close>

text \<open>
  The lookup \<open>{participants: {$all: [me, receiver]}, itemId: itemId || null}\<close>: both users
  are among the participants, and the item is the given one, or no item is stored
  (\<open>null\<close> matches an absent field).
\<close>

definition convKey :: "oid \<Rightarrow> oid \<Rightarrow> oid option \<Rightarrow> conversation \<Rightarrow> bool" where
  "convKey uid rid item c =
     (uid \<in> set (participants c) \<and> rid \<in> set (participants c) \<and> itemId c = item)"

text \<open>
  The handler returns the new store, the conversation read back by \<open>findById\<close> and the
  message; the reply carries the stored conversation, its references not populated. A new conversation takes its identifier when it is constructed, before the
  message takes its own; it is inserted with the last-message pointer already set, and
  the second \<open>save()\<close> then has nothing left to write. A conversation that was found has
  its pointer and its \<open>updatedAt\<close> written by that second \<open>save()\<close>.
\<close>

definition createConversation ::
  "store \<Rightarrow> oid \<Rightarrow> oid option \<Rightarrow> oid option \<Rightarrow> string option \<Rightarrow> date
     \<Rightarrow> store \<times> (error + conversation option \<times> message)" where
  "createConversation s uid receiverId item initialMessage now =
     (case receiverId of
        None \<Rightarrow> (s, Inl (ErrorResponse 400))
      | Some rid \<Rightarrow>
          (case initialMessage of
             None \<Rightarrow> (s, Inl (ErrorResponse 400))
           | Some txt \<Rightarrow>
               if txt = [] then (s, Inl (ErrorResponse 400))
               else if rid \<notin> set (users s) then (s, Inl (ErrorResponse 404))
               else
                 (case find (convKey uid rid item) (conversations s) of
                    None \<Rightarrow>
                      let conv = \<lparr>c_id = nextId s, participants = [uid, rid], itemId = item,
                                  lastMessage = None, c_createdAt = now, updatedAt = now\<rparr>;
                          (s1, msg) = Message_create (s\<lparr>nextId := Suc (nextId s)\<rparr>)
                                        (c_id conv) uid txt [uid] now;
                          s2 = Conversation_insert s1 (conv\<lparr>lastMessage := Some (m_id msg)\<rparr>)
                      in (s2, Inr (findById (conversations s2) (c_id conv), msg))
                  | Some conv \<Rightarrow>
                      let (s1, msg) = Message_create s (c_id conv) uid txt [uid] now;
                          s2 = Conversation_update s1 (c_id conv)
                                 (\<lambda>c. c\<lparr>lastMessage := Some (m_id msg), updatedAt := now\<rparr>)
                      in (s2, Inr (findById (conversations s2) (c_id conv), msg)))))"

subsection \<open>getMessagesByConversation\<close>

text \<open>
  The messages are read first, oldest first; then \<open>updateMany\<close> sets the flag \<open>read\<close> of
  the messages of other senders whose flag is \<open>false\<close>. The response carries the messages
  as they were read.
\<close>

definition getMessagesByConversation ::
  "store \<Rightarrow> oid \<Rightarrow> oid \<Rightarrow> store \<times> (error + message list)" where
  "getMessagesByConversation s cid uid =
     (case findById (conversations s) cid of
        None \<Rightarrow> (s, Inl (ErrorResponse 404))
      | Some conv \<Rightarrow>
          if uid \<notin> set (participants conv) then (s, Inl (ErrorResponse 401))
          else
            let msgs = sort_key m_createdAt (filter (\<lambda>m. conversationId m = cid) (messages s));
                (ms', n) = updateMany
                             (\<lambda>m. conversationId m = cid \<and> senderId m \<noteq> uid \<and> read m = Some False)
                             (\<lambda>m. m\<lparr>read := Some True\<rparr>) (messages s)
            in (s\<lparr>messages := ms'\<rparr>, Inr msgs))"

subsection \<open>markMessagesAsRead\<close>

definition markMessagesAsRead :: "store \<Rightarrow> oid \<Rightarrow> oid \<Rightarrow> store \<times> (error + nat)" where
  "markMessagesAsRead s cid uid =
     (case findById (conversations s) cid of
        None \<Rightarrow> (s, Inl (ErrorResponse 404))
      | Some conv \<Rightarrow>
          if uid \<notin> set (participants conv) then (s, Inl (ErrorResponse 403))
          else
            let (ms', modifiedCount) =
                  updateMany (unreadFilter cid uid)
                    (\<lambda>m. m\<lparr>readBy := addToSet uid (readBy m)\<rparr>) (messages s)
            in (s\<lparr>messages := ms'\<rparr>, Inr modifiedCount))"

subsection \<open>sendMessage\<close>

definition sendMessage ::
  "store \<Rightarrow> oid \<Rightarrow> oid option \<Rightarrow> string option \<Rightarrow> date \<Rightarrow> store \<times> (error + message)" where
  "sendMessage s uid convId txt now =
     (case convId of
        None \<Rightarrow> (s, Inl (ErrorResponse 400))
      | Some cid \<Rightarrow>
          (case txt of
             None \<Rightarrow> (s, Inl (ErrorResponse 400))
           | Some body \<Rightarrow>
               if body = [] then (s, Inl (ErrorResponse 400))
               else
                 (case findById (conversations s) cid of
                    None \<Rightarrow> (s, Inl (ErrorResponse 404))
                  | Some conv \<Rightarrow>
                      if uid \<notin> set (participants conv) then (s, Inl (ErrorResponse 401))
                      else
                        let (s1, msg) = Message_create s cid uid body [uid] now;
                            s2 = Conversation_update s1 cid
                                   (\<lambda>c. c\<lparr>lastMessage := Some (m_id msg), updatedAt := now\<rparr>)
                        in (s2, Inr msg))))"

section \<open>The sync client\<close>

text \<open>
  The two React components, each as a transition system over its state. A component
  function runs once per render; the functions it defines close over the state constants
  of that render. An effect runs after the render that mounted the component or changed
  one of its dependencies, and what it starts (an asynchronous call, an interval
  callback) keeps the closures of that render. An asynchronous function runs up to its
  \<open>await\<close> when it is called and resumes when the request settles; the requests that are
  in flight are part of the state, each with what its continuation needs. No request has
  a deadline, so a timer may fire at any point between two settlings; the clock is not part
  of the state. The form that sends a message does not touch the pollers and is left out.
\<close>

datatype 'a settled = Resolved 'a | Rejected

subsection \<open>ConversationList\<close>

text \<open>
  \<open>lv_pending\<close> holds, for every \<open>getConversations\<close> request in flight, the \<open>isPolling\<close>
  argument of the call that awaits it. \<open>lv_interval\<close> is the interval, when set, with the
  value that \<open>isFetching\<close> has in the closure its callback calls.
\<close>

record list_view =
  lv_conversations :: "(conversation \<times> nat) list"
  lv_loading :: bool
  lv_error :: string
  lv_isFetching :: bool
  lv_pending :: "bool list"
  lv_interval :: "bool option"

text \<open>The \<open>useState\<close> defaults, before the effect has run.\<close>

definition list_initial :: list_view where
  "list_initial = \<lparr>lv_conversations = [], lv_loading = True, lv_error = [], lv_isFetching = False,
                    lv_pending = [], lv_interval = None\<rparr>"

text \<open>
  \<open>fetchConversations(isPolling)\<close> up to its \<open>await\<close>. The first argument is \<open>isFetching\<close> as
  the closure that is called reads it: the constant of the render that defined it.
\<close>

definition fetchConversations :: "bool \<Rightarrow> bool \<Rightarrow> list_view \<Rightarrow> list_view" where
  "fetchConversations isFetching isPolling v =
     (if isFetching \<and> isPolling then v
      else v\<lparr>lv_isFetching := True,
             lv_loading := (if \<not> isPolling then True else lv_loading v),
             lv_pending := lv_pending v @ [isPolling]\<rparr>)"

text \<open>The rest of \<open>fetchConversations(isPolling)\<close>, when its request has settled.\<close>

definition fetchConversations_resume ::
  "bool \<Rightarrow> (conversation \<times> nat) list settled \<Rightarrow> list_view \<Rightarrow> list_view" where
  "fetchConversations_resume isPolling r v =
     (let v1 = (case r of
                  Resolved d \<Rightarrow> v\<lparr>lv_conversations := d\<rparr>
                | Rejected \<Rightarrow>
                    if \<not> isPolling
                    then v\<lparr>lv_error := ''Failed to load conversations. Please try again later.''\<rparr>
                    else v)
      in v1\<lparr>lv_loading := (if \<not> isPolling then False else lv_loading v1), lv_isFetching := False\<rparr>)"

datatype list_event =
  Mount
| Tick
| Settle nat "(conversation \<times> nat) list settled"
| Unmount

text \<open>
  The effect has no dependencies: it runs once, after the first render, calls
  \<open>fetchConversations(false)\<close> and sets the interval, both with the closure of that render.
  Every firing of the timer calls \<open>fetchConversations(true)\<close> of that same closure.
  \<open>Settle k r\<close> is the settling of the \<open>k\<close>-th request in flight.
\<close>

definition list_step :: "list_view \<Rightarrow> list_event \<Rightarrow> list_view" where
  "list_step v e =
     (case e of
        Mount \<Rightarrow> (fetchConversations (lv_isFetching v) False v)\<lparr>lv_interval := Some (lv_isFetching v)\<rparr>
      | Tick \<Rightarrow>
          (case lv_interval v of
             None \<Rightarrow> v
           | Some isFetching \<Rightarrow> fetchConversations isFetching True v)
      | Settle k r \<Rightarrow>
          if k < length (lv_pending v)
          then fetchConversations_resume (lv_pending v ! k) r
                 (v\<lparr>lv_pending := take k (lv_pending v) @ drop (Suc k) (lv_pending v)\<rparr>)
          else v
      | Unmount \<Rightarrow> v\<lparr>lv_interval := None\<rparr>)"

definition list_run :: "list_event list \<Rightarrow> list_view" where
  "list_run es = foldl list_step list_initial es"

subsection \<open>Conversation (the thread view)\<close>

text \<open>
  An asynchronous call in flight. \<open>fetchInitialDataAndPoll\<close> awaits \<open>getConversation\<close>, and
  carries the value that \<open>isFetchingMessages\<close> has in the closure of
  \<open>fetchMessagesAndUpdateState\<close> it will call. \<open>fetchMessagesAndUpdateState\<close> awaits
  \<open>getMessagesByConversation\<close> and then \<open>markMessagesAsRead\<close>; the flag says whether
  \<open>fetchInitialDataAndPoll\<close> awaits it in turn (and sets \<open>loading\<close> to false after it).
\<close>

datatype thread_call =
  AwaitConversation oid bool
| AwaitMessages oid bool
| AwaitMarkRead oid bool

datatype reply =
  ConversationReply conversation
| MessagesReply "message list"
| ReadReply
| Failure

text \<open>
  \<open>t_interval\<close> is the interval, when set, with the conversation identifier of its callback
  and the value that \<open>isFetchingMessages\<close> has in the closure the callback calls.
\<close>

record thread_view =
  t_messages :: "message list"
  t_loading :: bool
  t_error :: string
  t_conversation :: "conversation option"
  t_isFetchingMessages :: bool
  t_pending :: "thread_call list"
  t_interval :: "(oid \<times> bool) option"

definition thread_initial :: thread_view where
  "thread_initial = \<lparr>t_messages = [], t_loading = True, t_error = [], t_conversation = None,
                      t_isFetchingMessages = False, t_pending = [], t_interval = None\<rparr>"

text \<open>
  \<open>fetchMessagesAndUpdateState(currentConvId)\<close> up to its first \<open>await\<close>, called from the
  interval (\<open>initial = False\<close>) or awaited by \<open>fetchInitialDataAndPoll\<close> (\<open>initial = True\<close>).
  The first argument is \<open>isFetchingMessages\<close> as the closure that is called reads it. When
  the guard returns at once, the awaiting \<open>fetchInitialDataAndPoll\<close> goes on to its
  \<open>finally\<close>.
\<close>

definition fetchMessagesAndUpdateState ::
  "bool \<Rightarrow> oid option \<Rightarrow> bool \<Rightarrow> thread_view \<Rightarrow> thread_view" where
  "fetchMessagesAndUpdateState isFetchingMessages currentConvId initial v =
     (case currentConvId of
        None \<Rightarrow> (if initial then v\<lparr>t_loading := False\<rparr> else v)
      | Some c \<Rightarrow>
          if isFetchingMessages then (if initial then v\<lparr>t_loading := False\<rparr> else v)
          else v\<lparr>t_isFetchingMessages := True, t_pending := t_pending v @ [AwaitMessages c initial]\<rparr>)"

text \<open>The \<open>finally\<close> of \<open>fetchMessagesAndUpdateState\<close>, and of its awaiting caller after it.\<close>

definition fetchMessages_finally :: "bool \<Rightarrow> thread_view \<Rightarrow> thread_view" where
  "fetchMessages_finally initial v =
     (let v1 = v\<lparr>t_isFetchingMessages := False\<rparr>
      in if initial then v1\<lparr>t_loading := False\<rparr> else v1)"

text \<open>
  The effect of \<open>[conversationId, addNotification]\<close>, after the render in which the
  conversation identifier is \<open>cid\<close>: the clean-up of the previous effect clears its
  interval; \<open>fetchInitialDataAndPoll\<close> runs up to its \<open>await\<close>; the interval is set. Both the
  call and the callback keep the closure of this render, in which \<open>isFetchingMessages\<close> is
  the state at this moment. \<open>addNotification\<close> is taken to keep its identity from render to
  render, so that the effect runs when the conversation identifier changes and not
  otherwise.
\<close>

definition thread_effect :: "oid option \<Rightarrow> thread_view \<Rightarrow> thread_view" where
  "thread_effect cid v =
     (case cid of
        None \<Rightarrow> v\<lparr>t_conversation := None, t_messages := [], t_error := [], t_interval := None\<rparr>
      | Some c \<Rightarrow>
          v\<lparr>t_loading := True, t_error := [], t_conversation := None, t_messages := [],
            t_pending := t_pending v @ [AwaitConversation c (t_isFetchingMessages v)],
            t_interval := Some (c, t_isFetchingMessages v)\<rparr>)"

text \<open>A call in flight resumes with the reply to its request.\<close>

definition thread_resume :: "thread_call \<Rightarrow> reply \<Rightarrow> thread_view \<Rightarrow> thread_view" where
  "thread_resume call r v =
     (case call of
        AwaitConversation c isFetchingMessages \<Rightarrow>
          (case r of
             ConversationReply d \<Rightarrow>
               fetchMessagesAndUpdateState isFetchingMessages (Some c) True (v\<lparr>t_conversation := Some d\<rparr>)
           | _ \<Rightarrow>
               v\<lparr>t_error := ''Failed to load conversation. Please try again later.'',
                 t_conversation := None, t_messages := [], t_loading := False\<rparr>)
      | AwaitMessages c initial \<Rightarrow>
          (case r of
             MessagesReply newMessages \<Rightarrow>
               if length newMessages > 0
               then v\<lparr>t_messages := newMessages, t_pending := t_pending v @ [AwaitMarkRead c initial]\<rparr>
               else fetchMessages_finally initial (v\<lparr>t_messages := newMessages\<rparr>)
           | _ \<Rightarrow> fetchMessages_finally initial v)
      | AwaitMarkRead c initial \<Rightarrow> fetchMessages_finally initial v)"

datatype thread_event =
  Render "oid option"
| Timer
| Reply nat reply
| Dispose

text \<open>
  \<open>Render cid\<close> is the mount, or the change of the \<open>conversationId\<close> prop, to \<open>cid\<close>;
  \<open>Timer\<close> a firing of the interval; \<open>Reply k r\<close> the settling of the \<open>k\<close>-th call in
  flight; \<open>Dispose\<close> the unmount.
\<close>

definition thread_step :: "thread_view \<Rightarrow> thread_event \<Rightarrow> thread_view" where
  "thread_step v e =
     (case e of
        Render cid \<Rightarrow> thread_effect cid (v\<lparr>t_interval := None\<rparr>)
      | Timer \<Rightarrow>
          (case t_interval v of
             None \<Rightarrow> v
           | Some (c, isFetchingMessages) \<Rightarrow>
               fetchMessagesAndUpdateState isFetchingMessages (Some c) False v)
      | Reply k r \<Rightarrow>
          if k < length (t_pending v)
          then thread_resume (t_pending v ! k) r
                 (v\<lparr>t_pending := take k (t_pending v) @ drop (Suc k) (t_pending v)\<rparr>)
          else v
      | Dispose \<Rightarrow> v\<lparr>t_interval := None\<rparr>)"

definition thread_run :: "thread_event list \<Rightarrow> thread_view" where
  "thread_run es = foldl thread_step thread_initial es"

section \<open>Example stores\<close>

text \<open>
  Three users and no conversation; and the same store after user 1 has opened a
  conversation with user 2 about no item, with the text \<open>hi\<close>, at time 100.
\<close>

definition ex_empty :: store where
  "ex_empty = \<lparr>users = [1, 2, 3], conversations = [], messages = [], nextId = 10\<rparr>"

definition ex_conv :: conversation where
  "ex_conv = \<lparr>c_id = 10, participants = [1, 2], itemId = None, lastMessage = Some 11,
               c_createdAt = 100, updatedAt = 100\<rparr>"

definition ex_msg :: message where
  "ex_msg = \<lparr>m_id = 11, conversationId = 10, senderId = 1, content = ''hi'',
              readBy = [1], read = None, m_createdAt = 100\<rparr>"

definition ex_one :: store where
  "ex_one = \<lparr>users = [1, 2, 3], conversations = [ex_conv], messages = [ex_msg], nextId = 12\<rparr>"

text \<open>
  That store after user 3 has then opened a conversation with user 1 about item 7, at
  time 150.
\<close>

definition ex_conv2 :: conversation where
  "ex_conv2 = \<lparr>c_id = 12, participants = [3, 1], itemId = Some 7, lastMessage = Some 13,
               c_createdAt = 150, updatedAt = 150\<rparr>"

definition ex_msg2 :: message where
  "ex_msg2 = \<lparr>m_id = 13, conversationId = 12, senderId = 3, content = ''for sale?'',
              readBy = [3], read = None, m_createdAt = 150\<rparr>"

definition ex_two :: store where
  "ex_two = \<lparr>users = [1, 2, 3], conversations = [ex_conv, ex_conv2],
             messages = [ex_msg, ex_msg2], nextId = 14\<rparr>"

text \<open>
  The store \<open>ex_one\<close> after user 1 has twice opened a conversation with user 1, about no
  item, at times 200 and 210; and \<open>ex_one\<close> after user 3 has opened a conversation with
  user 1 about no item, at time 150.
\<close>

definition ex_note1 :: message where
  "ex_note1 = \<lparr>m_id = 12, conversationId = 10, senderId = 1, content = ''note to self'',
                readBy = [1], read = None, m_createdAt = 200\<rparr>"

definition ex_note2 :: message where
  "ex_note2 = \<lparr>m_id = 13, conversationId = 10, senderId = 1, content = ''note to self'',
                readBy = [1], read = None, m_createdAt = 210\<rparr>"

definition ex_self1 :: store where
  "ex_self1 = \<lparr>users = [1, 2, 3],
               conversations = [ex_conv\<lparr>lastMessage := Some 12, updatedAt := 200\<rparr>],
               messages = [ex_msg, ex_note1], nextId = 13\<rparr>"

definition ex_self2 :: store where
  "ex_self2 = \<lparr>users = [1, 2, 3],
               conversations = [ex_conv\<lparr>lastMessage := Some 13, updatedAt := 210\<rparr>],
               messages = [ex_msg, ex_note1, ex_note2], nextId = 14\<rparr>"

definition ex_conv3 :: conversation where
  "ex_conv3 = \<lparr>c_id = 12, participants = [3, 1], itemId = None, lastMessage = Some 13,
               c_createdAt = 150, updatedAt = 150\<rparr>"

definition ex_msg3 :: message where
  "ex_msg3 = \<lparr>m_id = 13, conversationId = 12, senderId = 3, content = ''hello'',
              readBy = [3], read = None, m_createdAt = 150\<rparr>"

definition ex_three :: store where
  "ex_three = \<lparr>users = [1, 2, 3], conversations = [ex_conv, ex_conv3],
               messages = [ex_msg, ex_msg3], nextId = 14\<rparr>"

section \<open>Stores the handlers can produce\<close>

text \<open>
  Identifiers come from the generator: in a well-formed store no two conversations and no
  two messages share an identifier, and every identifier in use is below \<open>nextId\<close>.
\<close>

definition wellFormed :: "store \<Rightarrow> bool" where
  "wellFormed s =
     (distinct (map c_id (conversations s)) \<and> distinct (map m_id (messages s)) \<and>
      list_all (\<lambda>c. c_id c < nextId s) (conversations s) \<and>
      list_all (\<lambda>m. m_id m < nextId s) (messages s))"

text \<open>
  A conversation points to a message of its own: its last-message pointer, when set, is
  the identifier of a stored message whose \<open>conversationId\<close> is this conversation.
\<close>

definition pointsToOwnMessage :: "message list \<Rightarrow> conversation \<Rightarrow> bool" where
  "pointsToOwnMessage ms c =
     (case lastMessage c of
        None \<Rightarrow> True
      | Some i \<Rightarrow> list_ex (\<lambda>m. m_id m = i \<and> conversationId m = c_id c) ms)"

definition lastMessageInv :: "store \<Rightarrow> bool" where
  "lastMessageInv s = list_all (pointsToOwnMessage (messages s)) (conversations s)"

text \<open>
  Every conversation has two participants, and no two conversations have the same set of
  participants and the same item.
\<close>

definition pairsUnique :: "store \<Rightarrow> bool" where
  "pairsUnique s =
     (list_all (\<lambda>c. length (participants c) = 2) (conversations s) \<and>
      distinct (map (\<lambda>c. (set (participants c), itemId c)) (conversations s)))"

text \<open>
  The stores that arise from a database with no conversation and no message by calls of
  the handlers that write (whatever they answer), while the user directory changes at
  will.
\<close>

inductive reachable :: "store \<Rightarrow> bool" where
  start: "conversations s = [] \<Longrightarrow> messages s = [] \<Longrightarrow> reachable s"
| directory: "reachable s \<Longrightarrow> reachable (s\<lparr>users := us\<rparr>)"
| create: "reachable s \<Longrightarrow> reachable (fst (createConversation s uid receiverId item initialMessage now))"
| send: "reachable s \<Longrightarrow> reachable (fst (sendMessage s uid convId msgText now))"
| list: "reachable s \<Longrightarrow> reachable (fst (getMessagesByConversation s cid uid))"
| mark: "reachable s \<Longrightarrow> reachable (fst (markMessagesAsRead s cid uid))"

section \<open>Vocabulary of the properties\<close>

text \<open>
  An authorization error, in the words of the error taxonomy: the response of a handler to
  an authenticated user who is not a participant, status 401 or 403.
\<close>

definition authorization_failure :: "error + 'a \<Rightarrow> bool" where
  "authorization_failure r = (r = Inl (ErrorResponse 401) \<or> r = Inl (ErrorResponse 403))"

text \<open>
  The key of a conversation in the words of the data model: the unordered pair of its
  participants and its item, where no item is a key of its own.
\<close>

definition pairKey :: "oid \<Rightarrow> oid \<Rightarrow> oid option \<Rightarrow> conversation \<Rightarrow> bool" where
  "pairKey a b item c = (set (participants c) = {a, b} \<and> itemId c = item)"

text \<open>
  The unread count in the words of the data model: the number of messages of the
  conversation that the viewing user did not write and whose read-set does not contain
  the viewing user. Messages are counted by their position in the collection.
\<close>

definition unread_spec :: "store \<Rightarrow> oid \<Rightarrow> oid \<Rightarrow> nat" where
  "unread_spec s cid uid =
     card {i. i < length (messages s) \<and> conversationId (messages s ! i) = cid \<and>
              senderId (messages s ! i) \<noteq> uid \<and> uid \<notin> set (readBy (messages s ! i))}"

section \<open>Properties of the driver operations\<close>

lemma findById_SomeD: "findById cs i = Some c \<Longrightarrow> c \<in> set cs \<and> c_id c = i"
  by (auto simp: findById_def find_Some_iff)

lemma markRead_map_eq:
  "map (\<lambda>m. if unreadFilter cid uid m then m\<lparr>readBy := addToSet uid (readBy m)\<rparr> else m) ms
   = map (\<lambda>m. if unreadFilter cid uid m then m\<lparr>readBy := readBy m @ [uid]\<rparr> else m) ms"
  by (simp add: unreadFilter_def addToSet_def)

lemma markRead_count:
  "length (filter (\<lambda>m. unreadFilter cid uid m \<and> m\<lparr>readBy := addToSet uid (readBy m)\<rparr> \<noteq> m) ms)
   = length (filter (unreadFilter cid uid) ms)"
proof -
  have "\<And>m. unreadFilter cid uid m \<Longrightarrow> m\<lparr>readBy := addToSet uid (readBy m)\<rparr> \<noteq> m"
  proof
    fix m assume u: "unreadFilter cid uid m" and e: "m\<lparr>readBy := addToSet uid (readBy m)\<rparr> = m"
    from e have "readBy (m\<lparr>readBy := addToSet uid (readBy m)\<rparr>) = readBy m" by simp
    then have "addToSet uid (readBy m) = readBy m" by simp
    with u show False by (simp add: unreadFilter_def addToSet_def)
  qed
  then have "(\<lambda>m. unreadFilter cid uid m \<and> m\<lparr>readBy := addToSet uid (readBy m)\<rparr> \<noteq> m) = unreadFilter cid uid"
    by auto
  then show ?thesis by simp
qed

lemma markRead_none_left:
  "filter (unreadFilter cid uid)
     (map (\<lambda>m. if unreadFilter cid uid m then m\<lparr>readBy := readBy m @ [uid]\<rparr> else m) ms) = []"
  by (induction ms) (auto simp: unreadFilter_def)

lemma markRead_fixpoint:
  "(\<lambda>m. if unreadFilter cid uid m then m\<lparr>readBy := readBy m @ [uid]\<rparr> else m) \<circ>
   (\<lambda>m. if unreadFilter cid uid m then m\<lparr>readBy := readBy m @ [uid]\<rparr> else m)
   = (\<lambda>m. if unreadFilter cid uid m then m\<lparr>readBy := readBy m @ [uid]\<rparr> else m)"
  by (rule ext) (simp add: unreadFilter_def)

lemma markRead_unfold:
  assumes "findById (conversations s) cid = Some conv" "uid \<in> set (participants conv)"
  shows "markMessagesAsRead s cid uid =
     (s\<lparr>messages := map (\<lambda>m. if unreadFilter cid uid m then m\<lparr>readBy := readBy m @ [uid]\<rparr> else m) (messages s)\<rparr>,
      Inr (length (filter (unreadFilter cid uid) (messages s))))"
  using assms
  by (simp add: markMessagesAsRead_def updateMany_def markRead_map_eq markRead_count)

section \<open>The handlers on the paths they take\<close>

lemma sendMessage_ok:
  assumes "findById (conversations s) cid = Some conv" "uid \<in> set (participants conv)" "body \<noteq> []"
  shows "sendMessage s uid (Some cid) (Some body) now =
     (s\<lparr>conversations := map (\<lambda>c. if c_id c = cid then c\<lparr>lastMessage := Some (nextId s), updatedAt := now\<rparr> else c)
                             (conversations s),
        messages := messages s @ [\<lparr>m_id = nextId s, conversationId = cid, senderId = uid, content = body,
                                  readBy = [uid], read = None, m_createdAt = now\<rparr>],
        nextId := Suc (nextId s)\<rparr>,
      Inr \<lparr>m_id = nextId s, conversationId = cid, senderId = uid, content = body,
           readBy = [uid], read = None, m_createdAt = now\<rparr>)"
  using assms by (simp add: sendMessage_def Message_create_def Conversation_update_def Let_def)

lemma sendMessage_cases:
  assumes "sendMessage s uid convId txt now = (s', Inr m)"
  obtains cid body conv where "convId = Some cid" "txt = Some body" "body \<noteq> []"
    "findById (conversations s) cid = Some conv" "uid \<in> set (participants conv)"
  using assms by (auto simp: sendMessage_def split: option.splits if_splits)

lemma createConversation_new:
  assumes "rid \<in> set (users s)" "txt \<noteq> []" "find (convKey uid rid item) (conversations s) = None"
  shows "createConversation s uid (Some rid) item (Some txt) now =
     (s\<lparr>conversations := conversations s @
           [\<lparr>c_id = nextId s, participants = [uid, rid], itemId = item,
             lastMessage = Some (Suc (nextId s)), c_createdAt = now, updatedAt = now\<rparr>],
        messages := messages s @ [\<lparr>m_id = Suc (nextId s), conversationId = nextId s, senderId = uid,
                                  content = txt, readBy = [uid], read = None, m_createdAt = now\<rparr>],
        nextId := Suc (Suc (nextId s))\<rparr>,
      Inr (findById (conversations s @
           [\<lparr>c_id = nextId s, participants = [uid, rid], itemId = item,
             lastMessage = Some (Suc (nextId s)), c_createdAt = now, updatedAt = now\<rparr>]) (nextId s),
           \<lparr>m_id = Suc (nextId s), conversationId = nextId s, senderId = uid,
            content = txt, readBy = [uid], read = None, m_createdAt = now\<rparr>))"
  using assms by (simp add: createConversation_def Message_create_def Conversation_insert_def Let_def)

lemma createConversation_found:
  assumes "rid \<in> set (users s)" "txt \<noteq> []" "find (convKey uid rid item) (conversations s) = Some conv"
  shows "createConversation s uid (Some rid) item (Some txt) now =
     (s\<lparr>conversations := map (\<lambda>c. if c_id c = c_id conv then c\<lparr>lastMessage := Some (nextId s), updatedAt := now\<rparr> else c)
                             (conversations s),
        messages := messages s @ [\<lparr>m_id = nextId s, conversationId = c_id conv, senderId = uid,
                                  content = txt, readBy = [uid], read = None, m_createdAt = now\<rparr>],
        nextId := Suc (nextId s)\<rparr>,
      Inr (findById (map (\<lambda>c. if c_id c = c_id conv then c\<lparr>lastMessage := Some (nextId s), updatedAt := now\<rparr> else c)
                             (conversations s)) (c_id conv),
           \<lparr>m_id = nextId s, conversationId = c_id conv, senderId = uid,
            content = txt, readBy = [uid], read = None, m_createdAt = now\<rparr>))"
  using assms by (simp add: createConversation_def Message_create_def Conversation_update_def Let_def cong: if_cong)

lemma createConversation_cases:
  assumes "createConversation s uid receiverId item initialMessage now = (s', Inr r)"
  obtains rid t where "receiverId = Some rid" "initialMessage = Some t" "t \<noteq> []"
    "rid \<in> set (users s)"
  using assms by (auto simp: createConversation_def split: option.splits if_splits)

lemma countDocuments_unread:
  "countDocuments (unreadFilter cid uid) (messages s) = unread_spec s cid uid"
  by (simp add: countDocuments_def unread_spec_def length_filter_conv_card unreadFilter_def)

lemma set_getConversations:
  "set (getConversations s uid) =
     (\<lambda>c. (c, unread_spec s (c_id c) uid)) ` {c \<in> set (conversations s). uid \<in> set (participants c)}"
  by (simp add: getConversations_def countDocuments_unread)

lemma map_fst_getConversations:
  "map fst (getConversations s uid) =
     sort_key (\<lambda>c. - updatedAt c) (filter (\<lambda>c. uid \<in> set (participants c)) (conversations s))"
  by (simp add: getConversations_def comp_def)

lemma getMessages_ok:
  assumes "findById (conversations s) cid = Some conv" "uid \<in> set (participants conv)"
  shows "getMessagesByConversation s cid uid =
     (s\<lparr>messages := map (\<lambda>m. if conversationId m = cid \<and> senderId m \<noteq> uid \<and> read m = Some False
                               then m\<lparr>read := Some True\<rparr> else m) (messages s)\<rparr>,
      Inr (sort_key m_createdAt (filter (\<lambda>m. conversationId m = cid) (messages s))))"
  using assms by (simp add: getMessagesByConversation_def updateMany_def Let_def)

lemma getMessages_cases:
  assumes "getMessagesByConversation s cid uid = (s', Inr r)"
  obtains conv where "findById (conversations s) cid = Some conv" "uid \<in> set (participants conv)"
  using assms by (auto simp: getMessagesByConversation_def split: option.splits if_splits)

lemma unread_after_send:
  assumes "other \<noteq> uid"
  shows "unreadFilter cid uid \<lparr>m_id = i, conversationId = cid, senderId = other, content = body,
                    readBy = [other], read = None, m_createdAt = now\<rparr>"
  using assms by (simp add: unreadFilter_def)

lemma unread_spec_messages:
  "unread_spec s cid uid = length (filter (unreadFilter cid uid) (messages s))"
  using countDocuments_unread[of cid uid s] by (simp add: countDocuments_def)

lemma getMessages_keeps_read_sets:
  "users (fst (getMessagesByConversation s cid uid)) = users s \<and>
   conversations (fst (getMessagesByConversation s cid uid)) = conversations s \<and>
   map readBy (messages (fst (getMessagesByConversation s cid uid))) = map readBy (messages s) \<and>
   map senderId (messages (fst (getMessagesByConversation s cid uid))) = map senderId (messages s) \<and>
   map conversationId (messages (fst (getMessagesByConversation s cid uid))) = map conversationId (messages s)"
  by (simp add: getMessagesByConversation_def updateMany_def Let_def split: option.splits)

section \<open>Read-marking\<close>

text \<open>
  C3. For every conversation \<open>cid\<close> that exists and every participant \<open>uid\<close> of it,
  \<open>markMessagesAsRead\<close> succeeds; it leaves users, conversations and the number of
  messages as they were; it appends \<open>uid\<close> to the read-set of each message of \<open>cid\<close> that
  another user sent and \<open>uid\<close> had not read, and leaves every other message as it was;
  the count it reports is the number of those messages; and the same call on the
  resulting store changes nothing and reports 0.
\<close>

theorem markMessagesAsRead_effect:
  assumes c: "findById (conversations s) cid = Some conv"
    and p: "uid \<in> set (participants conv)"
  shows "\<exists>s' n.
           markMessagesAsRead s cid uid = (s', Inr n) \<and>
           users s' = users s \<and> conversations s' = conversations s \<and> nextId s' = nextId s \<and>
           length (messages s') = length (messages s) \<and>
           (\<forall>i<length (messages s).
              messages s' ! i =
                (if conversationId (messages s ! i) = cid \<and> senderId (messages s ! i) \<noteq> uid \<and>
                    uid \<notin> set (readBy (messages s ! i))
                 then (messages s ! i)\<lparr>readBy := readBy (messages s ! i) @ [uid]\<rparr>
                 else messages s ! i)) \<and>
           n = length (filter (\<lambda>m. conversationId m = cid \<and> senderId m \<noteq> uid \<and> uid \<notin> set (readBy m))
                        (messages s)) \<and>
           markMessagesAsRead s' cid uid = (s', Inr 0)"
proof -
  let ?f = "\<lambda>m. if unreadFilter cid uid m then m\<lparr>readBy := readBy m @ [uid]\<rparr> else m"
  let ?s' = "s\<lparr>messages := map ?f (messages s)\<rparr>"
  let ?n = "length (filter (unreadFilter cid uid) (messages s))"
  have first: "markMessagesAsRead s cid uid = (?s', Inr ?n)"
    by (rule markRead_unfold[OF c p])
  have c': "findById (conversations ?s') cid = Some conv" using c by simp
  have again: "markMessagesAsRead ?s' cid uid = (?s', Inr 0)"
    using markRead_unfold[OF c' p] by (simp add: markRead_none_left markRead_fixpoint)
  have uf: "unreadFilter cid uid = (\<lambda>m. conversationId m = cid \<and> senderId m \<noteq> uid \<and> uid \<notin> set (readBy m))"
    by (auto simp: unreadFilter_def)
  have rest: "users ?s' = users s \<and> conversations ?s' = conversations s \<and> nextId ?s' = nextId s \<and>
           length (messages ?s') = length (messages s) \<and>
           (\<forall>i<length (messages s).
              messages ?s' ! i =
                (if conversationId (messages s ! i) = cid \<and> senderId (messages s ! i) \<noteq> uid \<and>
                    uid \<notin> set (readBy (messages s ! i))
                 then (messages s ! i)\<lparr>readBy := readBy (messages s ! i) @ [uid]\<rparr>
                 else messages s ! i)) \<and>
           ?n = length (filter (\<lambda>m. conversationId m = cid \<and> senderId m \<noteq> uid \<and> uid \<notin> set (readBy m))
                        (messages s))"
    by (simp add: uf)
  from first rest again show ?thesis by blast
qed

theorem markMessagesAsRead_effect_witness:
  "findById (conversations ex_one) 10 = Some ex_conv \<and> 2 \<in> set (participants ex_conv) \<and>
   markMessagesAsRead ex_one 10 2 = (ex_one\<lparr>messages := [ex_msg\<lparr>readBy := [1, 2]\<rparr>]\<rparr>, Inr 1) \<and>
   markMessagesAsRead (ex_one\<lparr>messages := [ex_msg\<lparr>readBy := [1, 2]\<rparr>]\<rparr>) 10 2
     = (ex_one\<lparr>messages := [ex_msg\<lparr>readBy := [1, 2]\<rparr>]\<rparr>, Inr 0)"
proof -
  have f: "findById (conversations ex_one) 10 = Some ex_conv" by code_simp
  have p: "2 \<in> set (participants ex_conv)" by code_simp
  have h: "markMessagesAsRead ex_one 10 2 = (ex_one\<lparr>messages := [ex_msg\<lparr>readBy := [1, 2]\<rparr>]\<rparr>, Inr 1)"
    by code_simp
  from markMessagesAsRead_effect[OF f p] obtain s' n where
    a: "markMessagesAsRead ex_one 10 2 = (s', Inr n)" and b: "markMessagesAsRead s' 10 2 = (s', Inr 0)"
    by blast
  from a h have "s' = ex_one\<lparr>messages := [ex_msg\<lparr>readBy := [1, 2]\<rparr>]\<rparr>"
    by (metis prod.inject)
  with b f p h show ?thesis by simp
qed

section \<open>Creation of messages\<close>

text \<open>
  C7. A message that \<open>createConversation\<close> or \<open>sendMessage\<close> creates is the one appended to
  the message collection; its sender is the requesting user, and its read-set contains
  its sender.
\<close>

theorem created_message_read_by_sender:
  "(createConversation s uid receiverId item initialMessage now = (s', Inr (c, m)) \<longrightarrow>
      messages s' = messages s @ [m] \<and> senderId m = uid \<and> senderId m \<in> set (readBy m)) \<and>
   (sendMessage s uid convId msgText now = (s', Inr m) \<longrightarrow>
      messages s' = messages s @ [m] \<and> senderId m = uid \<and> senderId m \<in> set (readBy m))"
proof (rule conjI; rule impI)
  assume a: "createConversation s uid receiverId item initialMessage now = (s', Inr (c, m))"
  then obtain rid t where r: "receiverId = Some rid" "initialMessage = Some t" "t \<noteq> []" "rid \<in> set (users s)"
    by (rule createConversation_cases)
  show "messages s' = messages s @ [m] \<and> senderId m = uid \<and> senderId m \<in> set (readBy m)"
  proof (cases "find (convKey uid rid item) (conversations s)")
    case None
    from a createConversation_new[OF r(4) r(3) None, of now] show ?thesis by (auto simp: r)
  next
    case (Some conv)
    from a createConversation_found[OF r(4) r(3) Some, of now] show ?thesis by (auto simp: r)
  qed
next
  assume a: "sendMessage s uid convId msgText now = (s', Inr m)"
  then obtain cid body conv where r: "convId = Some cid" "msgText = Some body" "body \<noteq> []"
    "findById (conversations s) cid = Some conv" "uid \<in> set (participants conv)"
    by (rule sendMessage_cases)
  from a sendMessage_ok[OF r(4) r(5) r(3), of now]
  show "messages s' = messages s @ [m] \<and> senderId m = uid \<and> senderId m \<in> set (readBy m)"
    by (auto simp: r)
qed

theorem created_message_read_by_sender_witness:
  "createConversation ex_empty 1 (Some 2) None (Some ''hi'') 100 = (ex_one, Inr (Some ex_conv, ex_msg)) \<and>
   1 \<in> set (readBy ex_msg) \<and>
   sendMessage ex_one 2 (Some 10) (Some ''yo'') 200 =
     (ex_one\<lparr>conversations := [ex_conv\<lparr>lastMessage := Some 12, updatedAt := 200\<rparr>],
             messages := [ex_msg, \<lparr>m_id = 12, conversationId = 10, senderId = 2, content = ''yo'',
                                   readBy = [2], read = None, m_createdAt = 200\<rparr>],
             nextId := 13\<rparr>,
      Inr \<lparr>m_id = 12, conversationId = 10, senderId = 2, content = ''yo'',
           readBy = [2], read = None, m_createdAt = 200\<rparr>) \<and>
   2 \<in> set (readBy \<lparr>m_id = 12, conversationId = 10, senderId = 2, content = ''yo'',
                     readBy = [2], read = None, m_createdAt = 200\<rparr>)"
proof -
  have c: "createConversation ex_empty 1 (Some 2) None (Some ''hi'') 100 = (ex_one, Inr (Some ex_conv, ex_msg))"
    by code_simp
  have s: "sendMessage ex_one 2 (Some 10) (Some ''yo'') 200 =
     (ex_one\<lparr>conversations := [ex_conv\<lparr>lastMessage := Some 12, updatedAt := 200\<rparr>],
             messages := [ex_msg, \<lparr>m_id = 12, conversationId = 10, senderId = 2, content = ''yo'',
                                   readBy = [2], read = None, m_createdAt = 200\<rparr>],
             nextId := 13\<rparr>,
      Inr \<lparr>m_id = 12, conversationId = 10, senderId = 2, content = ''yo'',
           readBy = [2], read = None, m_createdAt = 200\<rparr>)"
    by code_simp
  from created_message_read_by_sender[where s = ex_empty and uid = 1 and receiverId = "Some 2"
      and item = None and initialMessage = "Some ''hi''" and now = 100 and s' = ex_one
      and c = "Some ex_conv" and m = ex_msg and convId = None and msgText = None] c
  have 1: "1 \<in> set (readBy ex_msg)" by auto
  from created_message_read_by_sender[where s = ex_one and uid = 2 and convId = "Some 10"
      and msgText = "Some ''yo''" and now = 200 and receiverId = None and item = None
      and initialMessage = None and c = None] s
  have 2: "2 \<in> set (readBy \<lparr>m_id = 12, conversationId = 10, senderId = 2, content = ''yo'',
                     readBy = [2], read = None, m_createdAt = 200\<rparr>)" by auto
  from c s 1 2 show ?thesis by simp
qed

text \<open>
  C6. \<open>sendMessage\<close> answers 400 when the conversation identifier or the text is missing or
  the text is empty; otherwise 404 when no conversation has the identifier; otherwise 401
  when the sender is not a participant; in each of these cases the store it leaves is the
  store it was given. Otherwise it succeeds: it appends exactly one message, of this
  conversation, sender and text, with read-set \<open>[sender]\<close>, and sets the last-message
  pointer of the conversation to that message and its \<open>updatedAt\<close> to the time of the
  request, changing no other conversation.
\<close>

theorem sendMessage_contract:
  "sendMessage s uid None msgText now = (s, Inl (ErrorResponse 400)) \<and>
   (msgText = None \<or> msgText = Some [] \<longrightarrow>
      sendMessage s uid (Some cid) msgText now = (s, Inl (ErrorResponse 400))) \<and>
   (msgText = Some body \<and> body \<noteq> [] \<and> findById (conversations s) cid = None \<longrightarrow>
      sendMessage s uid (Some cid) msgText now = (s, Inl (ErrorResponse 404))) \<and>
   (msgText = Some body \<and> body \<noteq> [] \<and> findById (conversations s) cid = Some conv \<and>
    uid \<notin> set (participants conv) \<longrightarrow>
      sendMessage s uid (Some cid) msgText now = (s, Inl (ErrorResponse 401))) \<and>
   (msgText = Some body \<and> body \<noteq> [] \<and> findById (conversations s) cid = Some conv \<and>
    uid \<in> set (participants conv) \<longrightarrow>
      (\<exists>s' m. sendMessage s uid (Some cid) msgText now = (s', Inr m) \<and>
         messages s' = messages s @ [m] \<and>
         conversationId m = cid \<and> senderId m = uid \<and> content m = body \<and> readBy m = [uid] \<and>
         m_createdAt m = now \<and>
         users s' = users s \<and>
         conversations s' =
           map (\<lambda>c. if c_id c = cid then c\<lparr>lastMessage := Some (m_id m), updatedAt := now\<rparr> else c)
             (conversations s)))"
proof (intro conjI impI)
  show "sendMessage s uid None msgText now = (s, Inl (ErrorResponse 400))"
    by (simp add: sendMessage_def)
  show "sendMessage s uid (Some cid) msgText now = (s, Inl (ErrorResponse 400))"
    if "msgText = None \<or> msgText = Some []"
    using that by (auto simp: sendMessage_def)
  show "sendMessage s uid (Some cid) msgText now = (s, Inl (ErrorResponse 404))"
    if "msgText = Some body \<and> body \<noteq> [] \<and> findById (conversations s) cid = None"
    using that by (simp add: sendMessage_def)
  show "sendMessage s uid (Some cid) msgText now = (s, Inl (ErrorResponse 401))"
    if "msgText = Some body \<and> body \<noteq> [] \<and> findById (conversations s) cid = Some conv \<and>
        uid \<notin> set (participants conv)"
    using that by (simp add: sendMessage_def)
  show "\<exists>s' m. sendMessage s uid (Some cid) msgText now = (s', Inr m) \<and>
         messages s' = messages s @ [m] \<and>
         conversationId m = cid \<and> senderId m = uid \<and> content m = body \<and> readBy m = [uid] \<and>
         m_createdAt m = now \<and>
         users s' = users s \<and>
         conversations s' =
           map (\<lambda>c. if c_id c = cid then c\<lparr>lastMessage := Some (m_id m), updatedAt := now\<rparr> else c)
             (conversations s)"
    if h: "msgText = Some body \<and> body \<noteq> [] \<and> findById (conversations s) cid = Some conv \<and>
        uid \<in> set (participants conv)"
  proof -
    from h have "sendMessage s uid (Some cid) msgText now = 
     (s\<lparr>conversations := map (\<lambda>c. if c_id c = cid then c\<lparr>lastMessage := Some (nextId s), updatedAt := now\<rparr> else c)
                             (conversations s),
        messages := messages s @ [\<lparr>m_id = nextId s, conversationId = cid, senderId = uid, content = body,
                                  readBy = [uid], read = None, m_createdAt = now\<rparr>],
        nextId := Suc (nextId s)\<rparr>,
      Inr \<lparr>m_id = nextId s, conversationId = cid, senderId = uid, content = body,
           readBy = [uid], read = None, m_createdAt = now\<rparr>)"
      using sendMessage_ok[of s cid conv uid body now] by simp
    then show ?thesis by simp
  qed
qed

theorem sendMessage_contract_witness:
  "sendMessage ex_one 2 (Some 10) (Some []) 200 = (ex_one, Inl (ErrorResponse 400)) \<and>
   sendMessage ex_one 2 (Some 99) (Some ''yo'') 200 = (ex_one, Inl (ErrorResponse 404)) \<and>
   sendMessage ex_one 3 (Some 10) (Some ''yo'') 200 = (ex_one, Inl (ErrorResponse 401)) \<and>
   (\<exists>s' m. sendMessage ex_one 2 (Some 10) (Some ''yo'') 200 = (s', Inr m) \<and>
       messages s' = [ex_msg, m] \<and> readBy m = [2] \<and>
       conversations s' = [ex_conv\<lparr>lastMessage := Some (m_id m), updatedAt := 200\<rparr>])"
proof -
  have f: "findById (conversations ex_one) 10 = Some ex_conv" by code_simp
  have n: "findById (conversations ex_one) 99 = None" by code_simp
  have p2: "2 \<in> set (participants ex_conv)" by code_simp
  have p3: "3 \<notin> set (participants ex_conv)" by code_simp
  have i: "c_id ex_conv = 10" by code_simp
  have ms: "messages ex_one = [ex_msg]" "conversations ex_one = [ex_conv]" by (simp_all add: ex_one_def)
  from sendMessage_contract[of ex_one 2 "Some []" 200 10]
  have 1: "sendMessage ex_one 2 (Some 10) (Some []) 200 = (ex_one, Inl (ErrorResponse 400))" by simp
  from sendMessage_contract[of ex_one 2 "Some ''yo''" 200 99 "''yo''"] n
  have 2: "sendMessage ex_one 2 (Some 99) (Some ''yo'') 200 = (ex_one, Inl (ErrorResponse 404))" by simp
  from sendMessage_contract[of ex_one 3 "Some ''yo''" 200 10 "''yo''" ex_conv] f p3
  have 3: "sendMessage ex_one 3 (Some 10) (Some ''yo'') 200 = (ex_one, Inl (ErrorResponse 401))" by simp
  from sendMessage_contract[of ex_one 2 "Some ''yo''" 200 10 "''yo''" ex_conv] f p2
  have 4: "\<exists>s' m. sendMessage ex_one 2 (Some 10) (Some ''yo'') 200 = (s', Inr m) \<and>
       messages s' = [ex_msg, m] \<and> readBy m = [2] \<and>
       conversations s' = [ex_conv\<lparr>lastMessage := Some (m_id m), updatedAt := 200\<rparr>]"
    by (auto simp: ms i)
  from 1 2 3 4 show ?thesis by blast
qed

section \<open>Authorization\<close>

text \<open>
  C5, as stated, fails: for a conversation that does not exist, every one of the four
  handlers answers 404, which is not an authorization error. Here user 3 asks for
  conversation 99 of a store that holds conversation 10 only.
\<close>

theorem nonparticipant_counterexample:
  "findById (conversations ex_one) 99 = None \<and>
   \<not> authorization_failure (snd (getConversation ex_one 99 3)) \<and>
   \<not> authorization_failure (snd (getMessagesByConversation ex_one 99 3)) \<and>
   \<not> authorization_failure (snd (sendMessage ex_one 3 (Some 99) (Some ''hi'') 200)) \<and>
   \<not> authorization_failure (snd (markMessagesAsRead ex_one 99 3))"
  by code_simp

text \<open>
  C5, amended. For a conversation that exists and a user who is not among its
  participants, \<open>getConversation\<close> and \<open>getMessagesByConversation\<close> answer 401,
  \<open>markMessagesAsRead\<close> answers 403, and \<open>sendMessage\<close> with a non-empty text answers 401.
  For a conversation that does not exist, each of them answers 404 (\<open>sendMessage\<close> when
  its text is non-empty). The store is unchanged in every case.
\<close>

theorem nonparticipant_rejected:
  "(findById (conversations s) cid = Some conv \<and> uid \<notin> set (participants conv) \<longrightarrow>
      getConversation s cid uid = (s, Inl (ErrorResponse 401)) \<and>
      getMessagesByConversation s cid uid = (s, Inl (ErrorResponse 401)) \<and>
      markMessagesAsRead s cid uid = (s, Inl (ErrorResponse 403)) \<and>
      (body \<noteq> [] \<longrightarrow> sendMessage s uid (Some cid) (Some body) now = (s, Inl (ErrorResponse 401)))) \<and>
   (findById (conversations s) cid = None \<longrightarrow>
      getConversation s cid uid = (s, Inl (ErrorResponse 404)) \<and>
      getMessagesByConversation s cid uid = (s, Inl (ErrorResponse 404)) \<and>
      markMessagesAsRead s cid uid = (s, Inl (ErrorResponse 404)) \<and>
      (body \<noteq> [] \<longrightarrow> sendMessage s uid (Some cid) (Some body) now = (s, Inl (ErrorResponse 404))))"
  by (auto simp: getConversation_def getMessagesByConversation_def markMessagesAsRead_def
        sendMessage_def list_ex_iff)

theorem nonparticipant_rejected_witness:
  "getConversation ex_one 10 3 = (ex_one, Inl (ErrorResponse 401)) \<and>
   getMessagesByConversation ex_one 10 3 = (ex_one, Inl (ErrorResponse 401)) \<and>
   markMessagesAsRead ex_one 10 3 = (ex_one, Inl (ErrorResponse 403)) \<and>
   sendMessage ex_one 3 (Some 10) (Some ''hi'') 200 = (ex_one, Inl (ErrorResponse 401)) \<and>
   getConversation ex_one 99 3 = (ex_one, Inl (ErrorResponse 404)) \<and>
   getMessagesByConversation ex_one 99 3 = (ex_one, Inl (ErrorResponse 404)) \<and>
   markMessagesAsRead ex_one 99 3 = (ex_one, Inl (ErrorResponse 404)) \<and>
   sendMessage ex_one 3 (Some 99) (Some ''hi'') 200 = (ex_one, Inl (ErrorResponse 404))"
proof -
  have f: "findById (conversations ex_one) 10 = Some ex_conv" by code_simp
  have n: "findById (conversations ex_one) 99 = None" by code_simp
  have p3: "3 \<notin> set (participants ex_conv)" by code_simp
  from nonparticipant_rejected[of ex_one 10 ex_conv 3 "''hi''" 200] f p3
  have a: "getConversation ex_one 10 3 = (ex_one, Inl (ErrorResponse 401)) \<and>
   getMessagesByConversation ex_one 10 3 = (ex_one, Inl (ErrorResponse 401)) \<and>
   markMessagesAsRead ex_one 10 3 = (ex_one, Inl (ErrorResponse 403)) \<and>
   sendMessage ex_one 3 (Some 10) (Some ''hi'') 200 = (ex_one, Inl (ErrorResponse 401))" by simp
  from nonparticipant_rejected[of ex_one 99 _ 3 "''hi''" 200] n
  have b: "getConversation ex_one 99 3 = (ex_one, Inl (ErrorResponse 404)) \<and>
   getMessagesByConversation ex_one 99 3 = (ex_one, Inl (ErrorResponse 404)) \<and>
   markMessagesAsRead ex_one 99 3 = (ex_one, Inl (ErrorResponse 404)) \<and>
   sendMessage ex_one 3 (Some 99) (Some ''hi'') 200 = (ex_one, Inl (ErrorResponse 404))" by simp
  from a b show ?thesis by blast
qed

section \<open>Listings\<close>

text \<open>
  C8. \<open>getConversations\<close> returns exactly the conversations that have the user among their
  participants (as a multiset: each once), ordered by \<open>updatedAt\<close> descending. For a
  participant of an existing conversation \<open>getMessagesByConversation\<close> succeeds, and when
  it succeeds it returns exactly the messages of that conversation, ordered by creation
  time ascending.
\<close>

theorem listings_complete_and_ordered:
  "mset (map fst (getConversations s uid)) =
     mset (filter (\<lambda>c. uid \<in> set (participants c)) (conversations s)) \<and>
   sorted_wrt (\<lambda>a b. updatedAt a \<ge> updatedAt b) (map fst (getConversations s uid)) \<and>
   (findById (conversations s) cid = Some conv \<and> uid \<in> set (participants conv) \<longrightarrow>
      (\<exists>s' ms. getMessagesByConversation s cid uid = (s', Inr ms))) \<and>
   (getMessagesByConversation s cid uid = (s', Inr ms) \<longrightarrow>
      mset ms = mset (filter (\<lambda>m. conversationId m = cid) (messages s)) \<and>
      sorted_wrt (\<lambda>a b. m_createdAt a \<le> m_createdAt b) ms)"
proof (intro conjI impI)
  show "mset (map fst (getConversations s uid)) =
     mset (filter (\<lambda>c. uid \<in> set (participants c)) (conversations s))"
    by (simp only: map_fst_getConversations mset_sort)
  have "sorted (map (\<lambda>c. - updatedAt c) (map fst (getConversations s uid)))"
    by (simp only: map_fst_getConversations sorted_sort_key)
  then show "sorted_wrt (\<lambda>a b. updatedAt a \<ge> updatedAt b) (map fst (getConversations s uid))"
    by (simp only: sorted_map neg_le_iff_le)
  show "\<exists>s' ms. getMessagesByConversation s cid uid = (s', Inr ms)"
    if "findById (conversations s) cid = Some conv \<and> uid \<in> set (participants conv)"
    using that getMessages_ok[of s cid conv uid] by simp
next
  assume a: "getMessagesByConversation s cid uid = (s', Inr ms)"
  then obtain conv' where c: "findById (conversations s) cid = Some conv'" "uid \<in> set (participants conv')"
    by (rule getMessages_cases)
  from a getMessages_ok[OF c]
  have ms: "ms = sort_key m_createdAt (filter (\<lambda>m. conversationId m = cid) (messages s))" by simp
  show "mset ms = mset (filter (\<lambda>m. conversationId m = cid) (messages s))"
    by (simp only: ms mset_sort)
  have "sorted (map m_createdAt ms)" by (simp only: ms sorted_sort_key)
  then show "sorted_wrt (\<lambda>a b. m_createdAt a \<le> m_createdAt b) ms"
    by (simp only: sorted_map)
qed

theorem listings_complete_and_ordered_witness:
  "map fst (getConversations ex_two 1) = [ex_conv2, ex_conv] \<and>
   mset [ex_conv2, ex_conv] = mset (filter (\<lambda>c. 1 \<in> set (participants c)) (conversations ex_two)) \<and>
   sorted_wrt (\<lambda>a b. updatedAt a \<ge> updatedAt b) [ex_conv2, ex_conv] \<and>
   getMessagesByConversation ex_two 12 1 = (ex_two, Inr [ex_msg2]) \<and>
   mset [ex_msg2] = mset (filter (\<lambda>m. conversationId m = 12) (messages ex_two))"
proof -
  have g: "map fst (getConversations ex_two 1) = [ex_conv2, ex_conv]" by code_simp
  have m: "getMessagesByConversation ex_two 12 1 = (ex_two, Inr [ex_msg2])" by code_simp
  have f: "findById (conversations ex_two) 12 = Some ex_conv2" by code_simp
  have p: "1 \<in> set (participants ex_conv2)" by code_simp
  from listings_complete_and_ordered[where s = ex_two and uid = 1 and cid = 12 and conv = ex_conv2
      and s' = ex_two and ms = "[ex_msg2]"] f p m
  have "mset (map fst (getConversations ex_two 1)) =
          mset (filter (\<lambda>c. 1 \<in> set (participants c)) (conversations ex_two)) \<and>
        sorted_wrt (\<lambda>a b. updatedAt a \<ge> updatedAt b) (map fst (getConversations ex_two 1)) \<and>
        mset [ex_msg2] = mset (filter (\<lambda>m. conversationId m = 12) (messages ex_two))"
    by blast
  with g m show ?thesis by simp
qed

section \<open>Unread counts\<close>

text \<open>
  C2. Every unread count that \<open>getConversations\<close> returns to a user is the number of
  messages of that conversation that the user did not send and whose read-set does not
  contain the user. For a participant of an existing conversation the list has the entry
  of that conversation; a successful \<open>sendMessage\<close> into it by another user raises the
  user's count by exactly 1, and a successful \<open>markMessagesAsRead\<close> by the user makes it 0;
  the next \<open>getConversations\<close> returns the conversation with that count.
\<close>

theorem unreadCount_tracks_read_sets:
  "(\<forall>(c, n) \<in> set (getConversations s uid). n = unread_spec s (c_id c) uid) \<and>
   (findById (conversations s) cid = Some conv \<and> uid \<in> set (participants conv) \<longrightarrow>
      (conv, unread_spec s cid uid) \<in> set (getConversations s uid) \<and>
      (sendMessage s other (Some cid) (Some body) now = (sa, Inr m) \<and> other \<noteq> uid \<longrightarrow>
         unread_spec sa cid uid = unread_spec s cid uid + 1 \<and>
         (conv\<lparr>lastMessage := Some (m_id m), updatedAt := now\<rparr>, unread_spec s cid uid + 1)
            \<in> set (getConversations sa uid)) \<and>
      (markMessagesAsRead s cid uid = (sb, Inr k) \<longrightarrow>
         unread_spec sb cid uid = 0 \<and> (conv, 0) \<in> set (getConversations sb uid)))"
proof (intro conjI impI)
  show "\<forall>(c, n) \<in> set (getConversations s uid). n = unread_spec s (c_id c) uid"
    by (auto simp: set_getConversations)
next
  assume h: "findById (conversations s) cid = Some conv \<and> uid \<in> set (participants conv)"
  then have c: "conv \<in> set (conversations s)" "c_id conv = cid" "uid \<in> set (participants conv)"
    using findById_SomeD[of "conversations s" cid conv] by simp_all
  then show "(conv, unread_spec s cid uid) \<in> set (getConversations s uid)"
    by (auto simp: set_getConversations)
next
  assume h: "findById (conversations s) cid = Some conv \<and> uid \<in> set (participants conv)"
    and a: "sendMessage s other (Some cid) (Some body) now = (sa, Inr m) \<and> other \<noteq> uid"
  from h have c: "conv \<in> set (conversations s)" "c_id conv = cid" "uid \<in> set (participants conv)"
    using findById_SomeD[of "conversations s" cid conv] by simp_all
  from a obtain conv' where o: "findById (conversations s) cid = Some conv'"
    "other \<in> set (participants conv')" "body \<noteq> []"
    by (auto elim: sendMessage_cases)
  from a sendMessage_ok[OF o, of now]
  have sa: "sa = s\<lparr>conversations := map (\<lambda>c. if c_id c = cid then c\<lparr>lastMessage := Some (nextId s), updatedAt := now\<rparr> else c)
                             (conversations s),
        messages := messages s @ [\<lparr>m_id = nextId s, conversationId = cid, senderId = other, content = body,
                                  readBy = [other], read = None, m_createdAt = now\<rparr>],
        nextId := Suc (nextId s)\<rparr>"
    and m: "m = \<lparr>m_id = nextId s, conversationId = cid, senderId = other, content = body,
           readBy = [other], read = None, m_createdAt = now\<rparr>" by auto
  from a have ne: "other \<noteq> uid" by simp
  show u: "unread_spec sa cid uid = unread_spec s cid uid + 1"
    by (simp add: unread_spec_messages sa unread_after_send[OF ne])
  have "conv\<lparr>lastMessage := Some (m_id m), updatedAt := now\<rparr> \<in> set (conversations sa)"
    using c by (auto simp: sa m image_iff intro!: bexI[of _ conv])
  then have "(conv\<lparr>lastMessage := Some (m_id m), updatedAt := now\<rparr>, unread_spec sa cid uid) \<in> set (getConversations sa uid)"
    using c by (auto simp: set_getConversations image_iff)
  then show "(conv\<lparr>lastMessage := Some (m_id m), updatedAt := now\<rparr>, unread_spec s cid uid + 1)
            \<in> set (getConversations sa uid)" by (simp only: u)
next
  assume h: "findById (conversations s) cid = Some conv \<and> uid \<in> set (participants conv)"
    and a: "markMessagesAsRead s cid uid = (sb, Inr k)"
  from h have c: "conv \<in> set (conversations s)" "c_id conv = cid" "uid \<in> set (participants conv)"
    using findById_SomeD[of "conversations s" cid conv] by simp_all
  from h a markRead_unfold[of s cid conv uid]
  have sb: "sb = s\<lparr>messages := map (\<lambda>m. if unreadFilter cid uid m then m\<lparr>readBy := readBy m @ [uid]\<rparr> else m) (messages s)\<rparr>"
    by simp
  show u: "unread_spec sb cid uid = 0"
    by (simp add: unread_spec_messages sb markRead_none_left)
  have "(conv, unread_spec sb cid uid) \<in> set (getConversations sb uid)"
    using c by (auto simp: set_getConversations sb)
  then show "(conv, 0) \<in> set (getConversations sb uid)" by (simp only: u)
qed

theorem unreadCount_tracks_read_sets_witness:
  "getConversations ex_one 2 = [(ex_conv, 1)] \<and> unread_spec ex_one 10 2 = 1 \<and>
   sendMessage ex_one 1 (Some 10) (Some ''again'') 300 =
     (ex_one\<lparr>conversations := [ex_conv\<lparr>lastMessage := Some 12, updatedAt := 300\<rparr>],
             messages := [ex_msg, \<lparr>m_id = 12, conversationId = 10, senderId = 1, content = ''again'',
                                   readBy = [1], read = None, m_createdAt = 300\<rparr>],
             nextId := 13\<rparr>,
      Inr \<lparr>m_id = 12, conversationId = 10, senderId = 1, content = ''again'',
           readBy = [1], read = None, m_createdAt = 300\<rparr>) \<and>
   unread_spec (ex_one\<lparr>conversations := [ex_conv\<lparr>lastMessage := Some 12, updatedAt := 300\<rparr>],
             messages := [ex_msg, \<lparr>m_id = 12, conversationId = 10, senderId = 1, content = ''again'',
                                   readBy = [1], read = None, m_createdAt = 300\<rparr>],
             nextId := 13\<rparr>) 10 2 = 2 \<and>
   markMessagesAsRead ex_one 10 2 = (ex_one\<lparr>messages := [ex_msg\<lparr>readBy := [1, 2]\<rparr>]\<rparr>, Inr 1) \<and>
   unread_spec (ex_one\<lparr>messages := [ex_msg\<lparr>readBy := [1, 2]\<rparr>]\<rparr>) 10 2 = 0"
proof -
  let ?m = "\<lparr>m_id = 12, conversationId = 10, senderId = 1, content = ''again'',
             readBy = [1], read = None, m_createdAt = 300\<rparr>"
  let ?sa = "ex_one\<lparr>conversations := [ex_conv\<lparr>lastMessage := Some 12, updatedAt := 300\<rparr>],
             messages := [ex_msg, ?m], nextId := 13\<rparr>"
  let ?sb = "ex_one\<lparr>messages := [ex_msg\<lparr>readBy := [1, 2]\<rparr>]\<rparr>"
  have g: "getConversations ex_one 2 = [(ex_conv, 1)]" by code_simp
  have f: "findById (conversations ex_one) 10 = Some ex_conv" by code_simp
  have p: "2 \<in> set (participants ex_conv)" by code_simp
  have sm: "sendMessage ex_one 1 (Some 10) (Some ''again'') 300 = (?sa, Inr ?m)" by code_simp
  have mr: "markMessagesAsRead ex_one 10 2 = (?sb, Inr 1)" by code_simp
  note t = unreadCount_tracks_read_sets[where s = ex_one and uid = 2 and cid = 10 and conv = ex_conv
      and other = 1 and body = "''again''" and now = 300 and sa = ?sa and m = ?m and sb = ?sb and k = 1]
  from t f p have "(ex_conv, unread_spec ex_one 10 2) \<in> set (getConversations ex_one 2)" by blast
  with g have u: "unread_spec ex_one 10 2 = 1" by simp
  have ne: "(1::nat) \<noteq> 2" by simp
  from t f p sm ne have "unread_spec ?sa 10 2 = unread_spec ex_one 10 2 + 1" by blast
  with u have ua: "unread_spec ?sa 10 2 = 2" by simp
  from t f p mr have ub: "unread_spec ?sb 10 2 = 0" by blast
  from g u sm ua mr ub show ?thesis by blast
qed

section \<open>Reading a thread\<close>

text \<open>
  C1 does not hold of the code. \<open>getMessagesByConversation\<close> writes the flag \<open>read\<close> and never
  the read-set \<open>readBy\<close>, which is what the unread count and \<open>markMessagesAsRead\<close> look at.
  User 1 opens a conversation with user 2; user 2 lists its messages. The store is as it
  was: the read-set of the message is still \<open>[1]\<close>, the unread count of user 2 is still
  1, and the \<open>markMessagesAsRead\<close> that follows changes the message and reports 1. The
  same happens when the stored message carries the flag \<open>read = false\<close>: the flag is set,
  the read-set is not (\<open>getMessages_keeps_read_sets\<close> shows it for every store).
\<close>

theorem listMessages_leaves_read_sets:
  "createConversation ex_empty 1 (Some 2) None (Some ''hi'') 100 = (ex_one, Inr (Some ex_conv, ex_msg)) \<and>
   getMessagesByConversation ex_one 10 2 = (ex_one, Inr [ex_msg]) \<and>
   senderId ex_msg = 1 \<and> readBy ex_msg = [1] \<and>
   getConversations ex_one 2 = [(ex_conv, 1)] \<and>
   markMessagesAsRead ex_one 10 2 = (ex_one\<lparr>messages := [ex_msg\<lparr>readBy := [1, 2]\<rparr>]\<rparr>, Inr 1) \<and>
   getMessagesByConversation (ex_one\<lparr>messages := [ex_msg\<lparr>read := Some False\<rparr>]\<rparr>) 10 2 =
     (ex_one\<lparr>messages := [ex_msg\<lparr>read := Some True\<rparr>]\<rparr>, Inr [ex_msg\<lparr>read := Some False\<rparr>]) \<and>
   getConversations (ex_one\<lparr>messages := [ex_msg\<lparr>read := Some True\<rparr>]\<rparr>) 2 = [(ex_conv, 1)]"
  by code_simp

section \<open>Invariants of the store\<close>

lemma find_append_if:
  "find P (xs @ ys) = (case find P xs of None \<Rightarrow> find P ys | Some x \<Rightarrow> Some x)"
  by (induction xs) auto

lemma findById_update:
  assumes "\<And>c. c_id (f c) = c_id c"
  shows "findById (map (\<lambda>c. if c_id c = i then f c else c) cs) j =
           (if j = i then map_option f (findById cs i) else findById cs j)"
  using assms by (induction cs) (auto simp: findById_def)

lemma findById_fresh:
  assumes "list_all (\<lambda>c. c_id c < n) cs"
  shows "findById cs n = None"
  using assms by (induction cs) (auto simp: findById_def)

lemma findById_member:
  assumes "c \<in> set cs"
  shows "\<exists>c'. findById cs (c_id c) = Some c'"
  using assms by (induction cs) (auto simp: findById_def)

lemma findById_distinct:
  assumes "c \<in> set cs" "distinct (map c_id cs)"
  shows "findById cs (c_id c) = Some c"
  using assms by (induction cs) (auto simp: findById_def)

lemma find_member: "find P xs = Some x \<Longrightarrow> x \<in> set xs \<and> P x"
  by (auto simp: find_Some_iff)

text \<open>Every handler as a case distinction on what it returns.\<close>

lemma createConversation_shape:
  "(\<exists>e. createConversation s uid receiverId item initialMessage now = (s, Inl e)) \<or>
   (\<exists>rid body. receiverId = Some rid \<and> initialMessage = Some body \<and> body \<noteq> [] \<and> rid \<in> set (users s) \<and>
      (find (convKey uid rid item) (conversations s) = None \<or>
       (\<exists>conv. find (convKey uid rid item) (conversations s) = Some conv)))"
  by (auto simp: createConversation_def split: option.splits)

lemma sendMessage_shape:
  "(\<exists>e. sendMessage s uid convId msgText now = (s, Inl e)) \<or>
   (\<exists>cid body conv. convId = Some cid \<and> msgText = Some body \<and> body \<noteq> [] \<and>
      findById (conversations s) cid = Some conv \<and> uid \<in> set (participants conv))"
  by (auto simp: sendMessage_def split: option.splits)

lemma getMessages_shape:
  "(\<exists>e. getMessagesByConversation s cid uid = (s, Inl e)) \<or>
   (\<exists>conv. findById (conversations s) cid = Some conv \<and> uid \<in> set (participants conv))"
  by (auto simp: getMessagesByConversation_def split: option.splits)

lemma markRead_shape:
  "(\<exists>e. markMessagesAsRead s cid uid = (s, Inl e)) \<or>
   (\<exists>conv. findById (conversations s) cid = Some conv \<and> uid \<in> set (participants conv))"
  by (auto simp: markMessagesAsRead_def split: option.splits)

lemma c_id_update:
  "c_id \<circ> (\<lambda>c. if c_id c = i then c\<lparr>lastMessage := l, updatedAt := u\<rparr> else c) = c_id"
  by (rule ext) simp

lemma m_id_readBy_update:
  "m_id \<circ> (\<lambda>m. if P m then m\<lparr>readBy := g m\<rparr> else m) = m_id"
  by (rule ext) simp

lemma m_id_read_update:
  "m_id \<circ> (\<lambda>m. if P m then m\<lparr>read := r\<rparr> else m) = m_id"
  by (rule ext) simp

lemma wellFormed_send:
  assumes "wellFormed s"
  shows "wellFormed (fst (sendMessage s uid convId msgText now))"
proof -
  from sendMessage_shape[of s uid convId msgText now] show ?thesis
  proof (elim disjE exE conjE)
    fix e assume "sendMessage s uid convId msgText now = (s, Inl e)"
    with assms show ?thesis by simp
  next
    fix cid body conv
    assume h: "convId = Some cid" "msgText = Some body" "body \<noteq> []"
      "findById (conversations s) cid = Some conv" "uid \<in> set (participants conv)"
    from assms show ?thesis
      unfolding h(1,2) sendMessage_ok[OF h(4,5,3)]
      by (auto simp: wellFormed_def list_all_iff c_id_update)
  qed
qed

lemma wellFormed_create:
  assumes "wellFormed s"
  shows "wellFormed (fst (createConversation s uid receiverId item initialMessage now))"
proof -
  from createConversation_shape[of s uid receiverId item initialMessage now] show ?thesis
  proof (elim disjE exE conjE)
    fix e assume "createConversation s uid receiverId item initialMessage now = (s, Inl e)"
    with assms show ?thesis by simp
  next
    fix rid body
    assume h: "receiverId = Some rid" "initialMessage = Some body" "body \<noteq> []" "rid \<in> set (users s)"
      "find (convKey uid rid item) (conversations s) = None"
    from assms show ?thesis
      unfolding h(1,2) createConversation_new[OF h(4,3,5)]
      by (auto simp: wellFormed_def list_all_iff)
  next
    fix rid body conv
    assume h: "receiverId = Some rid" "initialMessage = Some body" "body \<noteq> []" "rid \<in> set (users s)"
      "find (convKey uid rid item) (conversations s) = Some conv"
    from assms show ?thesis
      unfolding h(1,2) createConversation_found[OF h(4,3,5)]
      by (auto simp: wellFormed_def list_all_iff c_id_update)
  qed
qed

lemma wellFormed_list:
  assumes "wellFormed s"
  shows "wellFormed (fst (getMessagesByConversation s cid uid))"
proof -
  from getMessages_shape[of s cid uid] show ?thesis
  proof (elim disjE exE conjE)
    fix e assume "getMessagesByConversation s cid uid = (s, Inl e)"
    with assms show ?thesis by simp
  next
    fix conv assume h: "findById (conversations s) cid = Some conv" "uid \<in> set (participants conv)"
    from assms show ?thesis
      unfolding getMessages_ok[OF h]
      by (auto simp: wellFormed_def list_all_iff m_id_read_update)
  qed
qed

lemma wellFormed_mark:
  assumes "wellFormed s"
  shows "wellFormed (fst (markMessagesAsRead s cid uid))"
proof -
  from markRead_shape[of s cid uid] show ?thesis
  proof (elim disjE exE conjE)
    fix e assume "markMessagesAsRead s cid uid = (s, Inl e)"
    with assms show ?thesis by simp
  next
    fix conv assume h: "findById (conversations s) cid = Some conv" "uid \<in> set (participants conv)"
    from assms show ?thesis
      unfolding markRead_unfold[OF h]
      by (auto simp: wellFormed_def list_all_iff m_id_readBy_update)
  qed
qed

lemma reachable_wellFormed: "reachable s \<Longrightarrow> wellFormed s"
proof (induction rule: reachable.induct)
  case (start s)
  then show ?case by (simp add: wellFormed_def)
next
  case (directory s us)
  then show ?case by (simp add: wellFormed_def)
qed (simp_all add: wellFormed_send wellFormed_create wellFormed_list wellFormed_mark)

lemma pointsTo_append:
  "pointsToOwnMessage ms c \<Longrightarrow> pointsToOwnMessage (ms @ [m]) c"
  by (auto simp: pointsToOwnMessage_def split: option.splits)

lemma pointsTo_new:
  "c_id c = k \<Longrightarrow>
   pointsToOwnMessage
     (ms @ [\<lparr>m_id = i, conversationId = k, senderId = u, content = b, readBy = r, read = f,
              m_createdAt = t\<rparr>])
     (c\<lparr>lastMessage := Some i, updatedAt := t'\<rparr>)"
  by (simp add: pointsToOwnMessage_def)

lemma pointsTo_map:
  assumes "\<And>m. m_id (g m) = m_id m" "\<And>m. conversationId (g m) = conversationId m"
  shows "pointsToOwnMessage (map g ms) = pointsToOwnMessage ms"
  using assms by (intro ext) (auto simp: pointsToOwnMessage_def list_ex_iff split: option.splits)

lemma lastMessageInv_send:
  assumes "lastMessageInv s"
  shows "lastMessageInv (fst (sendMessage s uid convId msgText now))"
proof -
  from sendMessage_shape[of s uid convId msgText now] show ?thesis
  proof (elim disjE exE conjE)
    fix e assume "sendMessage s uid convId msgText now = (s, Inl e)"
    with assms show ?thesis by simp
  next
    fix cid body conv
    assume h: "convId = Some cid" "msgText = Some body" "body \<noteq> []"
      "findById (conversations s) cid = Some conv" "uid \<in> set (participants conv)"
    from assms show ?thesis
      unfolding h(1,2) sendMessage_ok[OF h(4,5,3)]
      by (auto simp: lastMessageInv_def list_all_iff pointsTo_append pointsTo_new)
  qed
qed

lemma lastMessageInv_create:
  assumes "lastMessageInv s"
  shows "lastMessageInv (fst (createConversation s uid receiverId item initialMessage now))"
proof -
  from createConversation_shape[of s uid receiverId item initialMessage now] show ?thesis
  proof (elim disjE exE conjE)
    fix e assume "createConversation s uid receiverId item initialMessage now = (s, Inl e)"
    with assms show ?thesis by simp
  next
    fix rid body
    assume h: "receiverId = Some rid" "initialMessage = Some body" "body \<noteq> []" "rid \<in> set (users s)"
      "find (convKey uid rid item) (conversations s) = None"
    from assms show ?thesis
      unfolding h(1,2) createConversation_new[OF h(4,3,5)]
      by (auto simp: lastMessageInv_def list_all_iff pointsTo_append)
        (simp add: pointsToOwnMessage_def)
  next
    fix rid body conv
    assume h: "receiverId = Some rid" "initialMessage = Some body" "body \<noteq> []" "rid \<in> set (users s)"
      "find (convKey uid rid item) (conversations s) = Some conv"
    from assms show ?thesis
      unfolding h(1,2) createConversation_found[OF h(4,3,5)]
      by (auto simp: lastMessageInv_def list_all_iff pointsTo_append pointsTo_new)
  qed
qed

lemma lastMessageInv_list:
  assumes "lastMessageInv s"
  shows "lastMessageInv (fst (getMessagesByConversation s cid uid))"
proof -
  from getMessages_shape[of s cid uid] show ?thesis
  proof (elim disjE exE conjE)
    fix e assume "getMessagesByConversation s cid uid = (s, Inl e)"
    with assms show ?thesis by simp
  next
    fix conv assume h: "findById (conversations s) cid = Some conv" "uid \<in> set (participants conv)"
    from assms show ?thesis
      unfolding getMessages_ok[OF h]
      by (simp add: lastMessageInv_def pointsTo_map)
  qed
qed

lemma lastMessageInv_mark:
  assumes "lastMessageInv s"
  shows "lastMessageInv (fst (markMessagesAsRead s cid uid))"
proof -
  from markRead_shape[of s cid uid] show ?thesis
  proof (elim disjE exE conjE)
    fix e assume "markMessagesAsRead s cid uid = (s, Inl e)"
    with assms show ?thesis by simp
  next
    fix conv assume h: "findById (conversations s) cid = Some conv" "uid \<in> set (participants conv)"
    from assms show ?thesis
      unfolding markRead_unfold[OF h]
      by (simp add: lastMessageInv_def pointsTo_map)
  qed
qed

lemma reachable_lastMessageInv: "reachable s \<Longrightarrow> lastMessageInv s"
proof (induction rule: reachable.induct)
  case (start s)
  then show ?case by (simp add: lastMessageInv_def)
next
  case (directory s us)
  then show ?case by (simp add: lastMessageInv_def)
qed (simp_all add: lastMessageInv_send lastMessageInv_create lastMessageInv_list lastMessageInv_mark)

lemma lastMessageInv_D:
  assumes "lastMessageInv s" "c \<in> set (conversations s)" "lastMessage c = Some i"
  shows "\<exists>m\<in>set (messages s). m_id m = i \<and> conversationId m = c_id c"
  using assms by (auto simp: lastMessageInv_def list_all_iff pointsToOwnMessage_def list_ex_iff)

lemma create_returns_conversation:
  assumes wf: "wellFormed s"
    and a: "createConversation s uid receiverId item initialMessage now = (s', Inr (c, m))"
  shows "messages s' = messages s @ [m] \<and>
         (\<exists>conv. c = Some conv \<and> findById (conversations s') (conversationId m) = Some conv \<and>
            c_id conv = conversationId m \<and> lastMessage conv = Some (m_id m))"
proof -
  from a obtain rid body where r: "receiverId = Some rid" "initialMessage = Some body" "body \<noteq> []"
    "rid \<in> set (users s)" by (rule createConversation_cases)
  show ?thesis
  proof (cases "find (convKey uid rid item) (conversations s)")
    case None
    from wf have fresh: "findById (conversations s) (nextId s) = None"
      by (simp add: wellFormed_def findById_fresh)
    from a show ?thesis
      unfolding r(1,2) createConversation_new[OF r(4,3) None]
      using fresh by (auto simp: findById_def find_append_if)
  next
    case (Some conv0)
    then have "conv0 \<in> set (conversations s)" by (simp add: find_member)
    then obtain c' where c': "findById (conversations s) (c_id conv0) = Some c'"
      using findById_member by blast
    then have i: "c_id c' = c_id conv0" by (simp add: findById_SomeD)
    from a show ?thesis
      unfolding r(1,2) createConversation_found[OF r(4,3) Some]
      using c' i by (auto simp: findById_update)
  qed
qed

lemma send_updates_conversation:
  assumes a: "sendMessage s uid convId msgText now = (s', Inr m)"
  shows "messages s' = messages s @ [m] \<and> convId = Some (conversationId m) \<and>
         (\<exists>conv. findById (conversations s') (conversationId m) = Some conv \<and>
            c_id conv = conversationId m \<and> lastMessage conv = Some (m_id m))"
proof -
  from a obtain cid body conv where r: "convId = Some cid" "msgText = Some body" "body \<noteq> []"
    "findById (conversations s) cid = Some conv" "uid \<in> set (participants conv)"
    by (rule sendMessage_cases)
  from r(4) have i: "c_id conv = cid" by (simp add: findById_SomeD)
  from a show ?thesis
    unfolding r(1,2) sendMessage_ok[OF r(4,5,3)]
    using r(4) i by (auto simp: findById_update)
qed

lemma wellFormed_message_by_id:
  assumes "wellFormed s" "x \<in> set (messages s)" "y \<in> set (messages s)" "m_id x = m_id y"
  shows "x = y"
proof -
  from assms(1) have "inj_on m_id (set (messages s))"
    by (simp add: wellFormed_def distinct_map)
  with assms(2,3,4) show ?thesis by (auto dest: inj_onD)
qed

text \<open>
  C10. In every store the handlers can produce, each conversation whose last-message
  pointer is set points to a stored message of that same conversation. A successful
  \<open>createConversation\<close> and a successful \<open>sendMessage\<close> append their message, which is the
  only stored message with its identifier; the conversation that \<open>findById\<close> reads back
  under the message's \<open>conversationId\<close> has that identifier and points to the message.
\<close>

theorem lastMessage_points_into_own_conversation:
  assumes "reachable s"
  shows "(\<forall>c\<in>set (conversations s). \<forall>i. lastMessage c = Some i \<longrightarrow>
            (\<exists>m\<in>set (messages s). m_id m = i \<and> conversationId m = c_id c)) \<and>
         (createConversation s uid receiverId item initialMessage now = (sa, Inr (c, ma)) \<longrightarrow>
            messages sa = messages s @ [ma] \<and>
            (\<forall>x\<in>set (messages sa). m_id x = m_id ma \<longrightarrow> x = ma) \<and>
            (\<exists>conv. c = Some conv \<and> findById (conversations sa) (conversationId ma) = Some conv \<and>
               c_id conv = conversationId ma \<and> lastMessage conv = Some (m_id ma))) \<and>
         (sendMessage s uid convId msgText now = (sb, Inr mb) \<longrightarrow>
            messages sb = messages s @ [mb] \<and> convId = Some (conversationId mb) \<and>
            (\<forall>x\<in>set (messages sb). m_id x = m_id mb \<longrightarrow> x = mb) \<and>
            (\<exists>conv. findById (conversations sb) (conversationId mb) = Some conv \<and>
               c_id conv = conversationId mb \<and> lastMessage conv = Some (m_id mb)))"
proof (intro conjI impI)
  from assms have inv: "lastMessageInv s" by (rule reachable_lastMessageInv)
  show "\<forall>c\<in>set (conversations s). \<forall>i. lastMessage c = Some i \<longrightarrow>
            (\<exists>m\<in>set (messages s). m_id m = i \<and> conversationId m = c_id c)"
    using lastMessageInv_D[OF inv] by blast
next
  assume a: "createConversation s uid receiverId item initialMessage now = (sa, Inr (c, ma))"
  from assms have wf: "wellFormed s" by (rule reachable_wellFormed)
  from wellFormed_create[OF wf, of uid receiverId item initialMessage now] a
  have wfa: "wellFormed sa" by simp
  note r = create_returns_conversation[OF wf a]
  from r show "messages sa = messages s @ [ma]" by blast
  then have "ma \<in> set (messages sa)" by simp
  then show "\<forall>x\<in>set (messages sa). m_id x = m_id ma \<longrightarrow> x = ma"
    using wellFormed_message_by_id[OF wfa] by blast
  from r show "\<exists>conv. c = Some conv \<and> findById (conversations sa) (conversationId ma) = Some conv \<and>
               c_id conv = conversationId ma \<and> lastMessage conv = Some (m_id ma)" by blast
next
  assume a: "sendMessage s uid convId msgText now = (sb, Inr mb)"
  from assms have wf: "wellFormed s" by (rule reachable_wellFormed)
  from wellFormed_send[OF wf, of uid convId msgText now] a
  have wfb: "wellFormed sb" by simp
  note r = send_updates_conversation[OF a]
  from r show "messages sb = messages s @ [mb]" by blast
  then have "mb \<in> set (messages sb)" by simp
  then show "\<forall>x\<in>set (messages sb). m_id x = m_id mb \<longrightarrow> x = mb"
    using wellFormed_message_by_id[OF wfb] by blast
  from r show "convId = Some (conversationId mb)" by blast
  from r show "\<exists>conv. findById (conversations sb) (conversationId mb) = Some conv \<and>
               c_id conv = conversationId mb \<and> lastMessage conv = Some (m_id mb)" by blast
qed

theorem lastMessage_points_into_own_conversation_witness:
  "reachable ex_one \<and>
   (\<exists>m\<in>set (messages ex_one). m_id m = 11 \<and> conversationId m = c_id ex_conv) \<and>
   createConversation ex_one 3 (Some 1) (Some 7) (Some ''for sale?'') 150
     = (ex_two, Inr (Some ex_conv2, ex_msg2)) \<and>
   findById (conversations ex_two) (conversationId ex_msg2) = Some ex_conv2 \<and>
   lastMessage ex_conv2 = Some (m_id ex_msg2) \<and>
   (\<exists>sb mb conv. sendMessage ex_one 2 (Some 10) (Some ''yo'') 200 = (sb, Inr mb) \<and>
      conversationId mb = 10 \<and> findById (conversations sb) 10 = Some conv \<and>
      lastMessage conv = Some (m_id mb))"
proof -
  have "reachable ex_empty" by (rule reachable.start) (simp_all add: ex_empty_def)
  then have "reachable (fst (createConversation ex_empty 1 (Some 2) None (Some ''hi'') 100))"
    by (rule reachable.create)
  moreover have "fst (createConversation ex_empty 1 (Some 2) None (Some ''hi'') 100) = ex_one"
    by code_simp
  ultimately have r: "reachable ex_one" by simp
  have l: "ex_conv \<in> set (conversations ex_one)" "lastMessage ex_conv = Some 11" by code_simp+
  have c: "createConversation ex_one 3 (Some 1) (Some 7) (Some ''for sale?'') 150
     = (ex_two, Inr (Some ex_conv2, ex_msg2))" by code_simp
  have s: "sendMessage ex_one 2 (Some 10) (Some ''yo'') 200 =
     (ex_one\<lparr>conversations := [ex_conv\<lparr>lastMessage := Some 12, updatedAt := 200\<rparr>],
             messages := [ex_msg, \<lparr>m_id = 12, conversationId = 10, senderId = 2, content = ''yo'',
                                   readBy = [2], read = None, m_createdAt = 200\<rparr>],
             nextId := 13\<rparr>,
      Inr \<lparr>m_id = 12, conversationId = 10, senderId = 2, content = ''yo'',
           readBy = [2], read = None, m_createdAt = 200\<rparr>)"
    by code_simp
  note t = lastMessage_points_into_own_conversation[OF r, where uid = 3 and receiverId = "Some 1"
      and item = "Some 7" and initialMessage = "Some ''for sale?''" and now = 150 and sa = ex_two
      and c = "Some ex_conv2" and ma = ex_msg2 and convId = None and msgText = None
      and sb = ex_one and mb = ex_msg]
  from t l have 1: "\<exists>m\<in>set (messages ex_one). m_id m = 11 \<and> conversationId m = c_id ex_conv" by blast
  from t c have 2: "findById (conversations ex_two) (conversationId ex_msg2) = Some ex_conv2 \<and>
      lastMessage ex_conv2 = Some (m_id ex_msg2)" by auto
  from lastMessage_points_into_own_conversation[OF r, where uid = 2 and convId = "Some 10"
      and msgText = "Some ''yo''" and now = 200 and receiverId = None and item = None
      and initialMessage = None and sa = ex_one and c = None and ma = ex_msg
      and sb = "ex_one\<lparr>conversations := [ex_conv\<lparr>lastMessage := Some 12, updatedAt := 200\<rparr>],
             messages := [ex_msg, \<lparr>m_id = 12, conversationId = 10, senderId = 2, content = ''yo'',
                                   readBy = [2], read = None, m_createdAt = 200\<rparr>],
             nextId := 13\<rparr>"
      and mb = "\<lparr>m_id = 12, conversationId = 10, senderId = 2, content = ''yo'',
           readBy = [2], read = None, m_createdAt = 200\<rparr>"] s
  have 3: "\<exists>sb mb conv. sendMessage ex_one 2 (Some 10) (Some ''yo'') 200 = (sb, Inr mb) \<and>
      conversationId mb = 10 \<and> findById (conversations sb) 10 = Some conv \<and>
      lastMessage conv = Some (m_id mb)" by auto
  from r 1 c 2 3 show ?thesis by blast
qed

section \<open>Opening a conversation twice\<close>

lemma convKey_update:
  "convKey uid rid item (c\<lparr>lastMessage := l, updatedAt := u\<rparr>) = convKey uid rid item c"
  by (simp add: convKey_def)

lemma convKey_sym: "convKey uid rid item c = convKey rid uid item c"
  by (auto simp: convKey_def)

lemma create_again:
  assumes wf: "wellFormed s" and u: "rid \<in> set (users s)" and b: "body \<noteq> []"
    and f: "find (convKey uid rid item) (conversations s) = Some conv"
  shows "\<exists>s' c m.
     createConversation s uid (Some rid) item (Some body) now = (s', Inr (Some c, m)) \<and>
     c = conv\<lparr>lastMessage := Some (m_id m), updatedAt := now\<rparr> \<and>
     conversations s' =
       map (\<lambda>x. if c_id x = c_id conv then x\<lparr>lastMessage := Some (m_id m), updatedAt := now\<rparr> else x)
         (conversations s) \<and>
     messages s' = messages s @ [m] \<and> users s' = users s \<and>
     conversationId m = c_id conv \<and> senderId m = uid \<and> content m = body"
proof -
  from f have "conv \<in> set (conversations s)" by (simp add: find_member)
  with wf have "findById (conversations s) (c_id conv) = Some conv"
    by (simp add: wellFormed_def findById_distinct)
  then show ?thesis
    unfolding createConversation_found[OF u b f]
    by (simp add: findById_update)
qed

lemma create_first:
  assumes wf: "wellFormed s" and u: "rid \<in> set (users s)" and b: "body \<noteq> []"
    and f: "find (convKey uid rid item) (conversations s) = None"
  shows "\<exists>s' c m.
     createConversation s uid (Some rid) item (Some body) now = (s', Inr (Some c, m)) \<and>
     c = \<lparr>c_id = nextId s, participants = [uid, rid], itemId = item, lastMessage = Some (m_id m),
          c_createdAt = now, updatedAt = now\<rparr> \<and>
     conversations s' = conversations s @ [c] \<and>
     messages s' = messages s @ [m] \<and> users s' = users s \<and>
     conversationId m = c_id c \<and> senderId m = uid \<and> content m = body"
proof -
  from wf have "findById (conversations s) (nextId s) = None"
    by (simp add: wellFormed_def findById_fresh)
  then show ?thesis
    unfolding createConversation_new[OF u b f]
    by (simp add: findById_def find_append_if)
qed

lemma filter_convKey_update:
  "filter (convKey uid rid item)
     (map (\<lambda>x. if c_id x = i then x\<lparr>lastMessage := l, updatedAt := t\<rparr> else x) cs)
   = map (\<lambda>x. if c_id x = i then x\<lparr>lastMessage := l, updatedAt := t\<rparr> else x)
       (filter (convKey uid rid item) cs)"
  by (induction cs) (auto simp: convKey_update)

lemma find_convKey_update:
  "find (convKey uid rid item)
     (map (\<lambda>x. if c_id x = i then x\<lparr>lastMessage := l, updatedAt := t\<rparr> else x) cs)
   = map_option (\<lambda>x. if c_id x = i then x\<lparr>lastMessage := l, updatedAt := t\<rparr> else x)
       (find (convKey uid rid item) cs)"
  by (induction cs) (auto simp: convKey_update)

text \<open>
  Two consecutive calls with the same requester, receiver and item, in a well-formed
  store: both succeed and return the same conversation, the first one that the lookup
  matches; the second call changes only its last-message pointer and \<open>updatedAt\<close> and
  inserts no conversation, and both messages carry its identifier. When no conversation
  matched the lookup before the first call, the first call inserts the conversation.
\<close>

lemma createConversation_twice:
  assumes wf: "wellFormed s" and u: "rid \<in> set (users s)" and b: "body \<noteq> []"
  shows "\<exists>sa ca ma sb cb mb.
     createConversation s uid (Some rid) item (Some body) now = (sa, Inr (Some ca, ma)) \<and>
     createConversation sa uid (Some rid) item (Some body) later = (sb, Inr (Some cb, mb)) \<and>
     convKey uid rid item ca \<and> convKey rid uid item ca \<and>
     cb = ca\<lparr>lastMessage := Some (m_id mb), updatedAt := later\<rparr> \<and>
     map c_id (conversations sb) = map c_id (conversations sa) \<and>
     messages sa = messages s @ [ma] \<and> messages sb = messages sa @ [mb] \<and>
     conversationId ma = c_id ca \<and> conversationId mb = c_id ca \<and>
     (find (convKey uid rid item) (conversations s) = None \<longrightarrow>
        conversations sa = conversations s @ [ca] \<and> participants ca = [uid, rid] \<and> itemId ca = item \<and>
        filter (convKey uid rid item) (conversations sb) = [cb]) \<and>
     (find (convKey uid rid item) (conversations s) \<noteq> None \<longrightarrow>
        map c_id (conversations sa) = map c_id (conversations s))"
proof (cases "find (convKey uid rid item) (conversations s)")
  case None
  from create_first[OF wf u b None, of now] obtain sa ca ma where
    1: "createConversation s uid (Some rid) item (Some body) now = (sa, Inr (Some ca, ma))"
    and ca: "ca = \<lparr>c_id = nextId s, participants = [uid, rid], itemId = item, lastMessage = Some (m_id ma),
          c_createdAt = now, updatedAt = now\<rparr>"
    and cs: "conversations sa = conversations s @ [ca]"
    and ms: "messages sa = messages s @ [ma]" and us: "users sa = users s"
    and ma: "conversationId ma = c_id ca" by blast
  from wellFormed_create[OF wf, of uid "Some rid" item "Some body" now] 1
  have wfa: "wellFormed sa" by simp
  have k: "convKey uid rid item ca" by (simp add: ca convKey_def)
  from None have none: "filter (convKey uid rid item) (conversations s) = []"
    by (auto simp: find_None_iff filter_empty_conv)
  from None k have fa: "find (convKey uid rid item) (conversations sa) = Some ca"
    by (simp add: cs find_append_if)
  from u us have ua: "rid \<in> set (users sa)" by simp
  from create_again[OF wfa ua b fa, of later] obtain sb cb mb where
    2: "createConversation sa uid (Some rid) item (Some body) later = (sb, Inr (Some cb, mb))"
    and cb: "cb = ca\<lparr>lastMessage := Some (m_id mb), updatedAt := later\<rparr>"
    and csb: "conversations sb =
       map (\<lambda>x. if c_id x = c_id ca then x\<lparr>lastMessage := Some (m_id mb), updatedAt := later\<rparr> else x)
         (conversations sa)"
    and msb: "messages sb = messages sa @ [mb]"
    and mb: "conversationId mb = c_id ca" by blast
  have ids: "map c_id (conversations sb) = map c_id (conversations sa)"
    by (simp only: csb map_map c_id_update)
  have one: "filter (convKey uid rid item) (conversations sb) = [cb]"
    using k by (simp add: csb filter_convKey_update cs none cb convKey_update)
  have p: "participants ca = [uid, rid]" "itemId ca = item" by (simp_all add: ca)
  from 1 2 k cb ids ms msb ma mb cs p one None show ?thesis
    by (auto simp: convKey_sym[of rid uid])
next
  case (Some conv)
  from create_again[OF wf u b Some, of now] obtain sa ca ma where
    1: "createConversation s uid (Some rid) item (Some body) now = (sa, Inr (Some ca, ma))"
    and ca: "ca = conv\<lparr>lastMessage := Some (m_id ma), updatedAt := now\<rparr>"
    and cs: "conversations sa =
       map (\<lambda>x. if c_id x = c_id conv then x\<lparr>lastMessage := Some (m_id ma), updatedAt := now\<rparr> else x)
         (conversations s)"
    and ms: "messages sa = messages s @ [ma]" and us: "users sa = users s"
    and ma: "conversationId ma = c_id conv" by blast
  from wellFormed_create[OF wf, of uid "Some rid" item "Some body" now] 1
  have wfa: "wellFormed sa" by simp
  from Some have "convKey uid rid item conv" by (simp add: find_member)
  then have k: "convKey uid rid item ca" by (simp add: ca convKey_update)
  have fa: "find (convKey uid rid item) (conversations sa) = Some ca"
    by (simp add: cs find_convKey_update Some ca)
  from u us have ua: "rid \<in> set (users sa)" by simp
  from create_again[OF wfa ua b fa, of later] obtain sb cb mb where
    2: "createConversation sa uid (Some rid) item (Some body) later = (sb, Inr (Some cb, mb))"
    and cb: "cb = ca\<lparr>lastMessage := Some (m_id mb), updatedAt := later\<rparr>"
    and csb: "conversations sb =
       map (\<lambda>x. if c_id x = c_id ca then x\<lparr>lastMessage := Some (m_id mb), updatedAt := later\<rparr> else x)
         (conversations sa)"
    and msb: "messages sb = messages sa @ [mb]"
    and mb: "conversationId mb = c_id ca" by blast
  have ids: "map c_id (conversations sb) = map c_id (conversations sa)"
    by (simp only: csb map_map c_id_update)
  have ids0: "map c_id (conversations sa) = map c_id (conversations s)"
    by (simp only: cs map_map c_id_update)
  have i: "c_id ca = c_id conv" by (simp add: ca)
  from 1 2 k cb ids ids0 ms msb ma mb i Some show ?thesis
    by (auto simp: convKey_sym[of rid uid])
qed

text \<open>
  Between two different users the lookup is the key: in a store the handlers can produce,
  two consecutive calls leave exactly one conversation of the pair and the item, and both
  messages are in it.
\<close>

lemma pair_of_update:
  "(\<lambda>c. (set (participants c), itemId c)) \<circ>
     (\<lambda>c. if c_id c = i then c\<lparr>lastMessage := l, updatedAt := u\<rparr> else c)
   = (\<lambda>c. (set (participants c), itemId c))"
  by (rule ext) simp

lemma pairsUnique_update:
  assumes "pairsUnique s"
  shows "pairsUnique (s\<lparr>conversations :=
            map (\<lambda>c. if c_id c = i then c\<lparr>lastMessage := l, updatedAt := u\<rparr> else c) (conversations s),
          messages := ms, nextId := n\<rparr>)"
  using assms by (auto simp: pairsUnique_def list_all_iff pair_of_update)

lemma pairsUnique_messages:
  assumes "pairsUnique s"
  shows "pairsUnique (s\<lparr>messages := ms\<rparr>)"
  using assms by (simp add: pairsUnique_def)

lemma pairsUnique_insert:
  assumes "pairsUnique s" "find (convKey uid rid item) (conversations s) = None"
  shows "pairsUnique (s\<lparr>conversations := conversations s @
            [\<lparr>c_id = i, participants = [uid, rid], itemId = item, lastMessage = l,
              c_createdAt = t, updatedAt = t\<rparr>],
          messages := ms, nextId := n\<rparr>)"
proof -
  from assms(2) have "\<And>c. c \<in> set (conversations s) \<Longrightarrow>
      (set (participants c), itemId c) \<noteq> ({uid, rid}, item)"
    by (auto simp: find_None_iff convKey_def)
  with assms(1) show ?thesis
    by (auto simp: pairsUnique_def list_all_iff)
qed

lemma pairsUnique_create:
  assumes "pairsUnique s"
  shows "pairsUnique (fst (createConversation s uid receiverId item initialMessage now))"
proof -
  from createConversation_shape[of s uid receiverId item initialMessage now] show ?thesis
  proof (elim disjE exE conjE)
    fix e assume "createConversation s uid receiverId item initialMessage now = (s, Inl e)"
    with assms show ?thesis by simp
  next
    fix rid body
    assume h: "receiverId = Some rid" "initialMessage = Some body" "body \<noteq> []" "rid \<in> set (users s)"
      "find (convKey uid rid item) (conversations s) = None"
    show ?thesis
      unfolding h(1,2) createConversation_new[OF h(4,3,5)] fst_conv
      by (rule pairsUnique_insert[OF assms h(5)])
  next
    fix rid body conv
    assume h: "receiverId = Some rid" "initialMessage = Some body" "body \<noteq> []" "rid \<in> set (users s)"
      "find (convKey uid rid item) (conversations s) = Some conv"
    show ?thesis
      unfolding h(1,2) createConversation_found[OF h(4,3,5)] fst_conv
      by (rule pairsUnique_update[OF assms])
  qed
qed

lemma pairsUnique_send:
  assumes "pairsUnique s"
  shows "pairsUnique (fst (sendMessage s uid convId msgText now))"
proof -
  from sendMessage_shape[of s uid convId msgText now] show ?thesis
  proof (elim disjE exE conjE)
    fix e assume "sendMessage s uid convId msgText now = (s, Inl e)"
    with assms show ?thesis by simp
  next
    fix cid body conv
    assume h: "convId = Some cid" "msgText = Some body" "body \<noteq> []"
      "findById (conversations s) cid = Some conv" "uid \<in> set (participants conv)"
    show ?thesis
      unfolding h(1,2) sendMessage_ok[OF h(4,5,3)] fst_conv
      by (rule pairsUnique_update[OF assms])
  qed
qed

lemma pairsUnique_list:
  assumes "pairsUnique s"
  shows "pairsUnique (fst (getMessagesByConversation s cid uid))"
  using assms getMessages_keeps_read_sets[of s cid uid] by (simp add: pairsUnique_def)

lemma pairsUnique_mark:
  assumes "pairsUnique s"
  shows "pairsUnique (fst (markMessagesAsRead s cid uid))"
proof -
  from markRead_shape[of s cid uid] show ?thesis
  proof (elim disjE exE conjE)
    fix e assume "markMessagesAsRead s cid uid = (s, Inl e)"
    with assms show ?thesis by simp
  next
    fix conv assume h: "findById (conversations s) cid = Some conv" "uid \<in> set (participants conv)"
    show ?thesis
      unfolding markRead_unfold[OF h] fst_conv
      by (rule pairsUnique_messages[OF assms])
  qed
qed

lemma reachable_pairsUnique: "reachable s \<Longrightarrow> pairsUnique s"
proof (induction rule: reachable.induct)
  case (start s)
  then show ?case by (simp add: pairsUnique_def)
next
  case (directory s us)
  then show ?case by (simp add: pairsUnique_def)
qed (simp_all add: pairsUnique_send pairsUnique_create pairsUnique_list pairsUnique_mark)

lemma convKey_is_pairKey:
  assumes "length (participants c) = 2" "uid \<noteq> rid"
  shows "convKey uid rid item c = pairKey uid rid item c"
proof -
  from assms(1) obtain x y where "participants c = [x, y]"
    by (auto simp: length_Suc_conv numeral_2_eq_2)
  with assms(2) show ?thesis by (auto simp: convKey_def pairKey_def)
qed

lemma filter_unique_key:
  assumes "distinct (map k cs)" "c \<in> set cs"
  shows "filter (\<lambda>x. k x = k c) cs = [c]"
  using assms
proof (induction cs)
  case Nil
  then show ?case by simp
next
  case (Cons a cs)
  show ?case
  proof (cases "a = c")
    case True
    with Cons.prems have "\<forall>x\<in>set cs. k x \<noteq> k c" by (auto simp: image_iff)
    then have "filter (\<lambda>x. k x = k c) cs = []" by (simp add: filter_empty_conv)
    with True show ?thesis by simp
  next
    case False
    with Cons.prems have "c \<in> set cs" "k a \<noteq> k c" by auto
    with Cons show ?thesis by simp
  qed
qed

lemma pairKey_only_one:
  assumes "pairsUnique s" "c \<in> set (conversations s)" "pairKey a b item c"
  shows "filter (pairKey a b item) (conversations s) = [c]"
proof -
  let ?k = "\<lambda>c. (set (participants c), itemId c)"
  from assms(3) have "pairKey a b item = (\<lambda>x. ?k x = ?k c)"
    by (auto simp: pairKey_def)
  moreover from assms(1,2) have "filter (\<lambda>x. ?k x = ?k c) (conversations s) = [c]"
    by (intro filter_unique_key) (simp_all add: pairsUnique_def)
  ultimately show ?thesis by simp
qed

lemma createConversation_twice_distinct_users:
  assumes r: "reachable s" and d: "uid \<noteq> rid" and u: "rid \<in> set (users s)" and b: "body \<noteq> []"
  shows "\<exists>sa ca ma sb cb mb.
     createConversation s uid (Some rid) item (Some body) now = (sa, Inr (Some ca, ma)) \<and>
     createConversation sa uid (Some rid) item (Some body) later = (sb, Inr (Some cb, mb)) \<and>
     pairKey uid rid item ca \<and>
     cb = ca\<lparr>lastMessage := Some (m_id mb), updatedAt := later\<rparr> \<and>
     filter (pairKey uid rid item) (conversations sa) = [ca] \<and>
     filter (pairKey uid rid item) (conversations sb) = [cb] \<and>
     length (conversations sb) = length (conversations sa) \<and>
     messages sa = messages s @ [ma] \<and> messages sb = messages sa @ [mb] \<and>
     conversationId ma = c_id ca \<and> conversationId mb = c_id ca"
proof -
  from r have wf: "wellFormed s" by (rule reachable_wellFormed)
  from createConversation_twice[OF wf u b, of uid item now later] obtain sa ca ma sb cb mb where
    1: "createConversation s uid (Some rid) item (Some body) now = (sa, Inr (Some ca, ma))"
    and 2: "createConversation sa uid (Some rid) item (Some body) later = (sb, Inr (Some cb, mb))"
    and k: "convKey uid rid item ca"
    and cb: "cb = ca\<lparr>lastMessage := Some (m_id mb), updatedAt := later\<rparr>"
    and ids: "map c_id (conversations sb) = map c_id (conversations sa)"
    and ms: "messages sa = messages s @ [ma]" "messages sb = messages sa @ [mb]"
    and cm: "conversationId ma = c_id ca" "conversationId mb = c_id ca"
    by (elim exE conjE)
  from reachable.create[OF r, of uid "Some rid" item "Some body" now] 1
  have ra: "reachable sa" by simp
  from reachable.create[OF ra, of uid "Some rid" item "Some body" later] 2
  have rb: "reachable sb" by simp
  from ra have wfa: "wellFormed sa" by (rule reachable_wellFormed)
  from create_returns_conversation[OF wf 1] have ina: "ca \<in> set (conversations sa)"
    by (auto dest: findById_SomeD)
  from create_returns_conversation[OF wfa 2] have inb: "cb \<in> set (conversations sb)"
    by (auto dest: findById_SomeD)
  from ra have pa: "pairsUnique sa" by (rule reachable_pairsUnique)
  from rb have pb: "pairsUnique sb" by (rule reachable_pairsUnique)
  from pa ina have "length (participants ca) = 2" by (simp add: pairsUnique_def list_all_iff)
  with k d have pk: "pairKey uid rid item ca" by (simp add: convKey_is_pairKey)
  then have pkb: "pairKey uid rid item cb" by (simp add: cb pairKey_def)
  from ids have len: "length (conversations sb) = length (conversations sa)"
    by (rule map_eq_imp_length_eq)
  from 1 2 pk cb pairKey_only_one[OF pa ina pk] pairKey_only_one[OF pb inb pkb] len ms cm
  show ?thesis by blast
qed

text \<open>
  C4 does not hold of the code when requester and receiver are the same user. The lookup
  \<open>$all: [me, me]\<close> matches every conversation of the requester about the item, whoever
  the other participant is. User 1 has a conversation with user 2, about no item, and
  twice opens a conversation with user 1, about no item: no conversation of the pair of
  user 1 with user 1 exists afterwards, no conversation was inserted, both messages are
  in the conversation with user 2, and user 2 reads them. With a second conversation of
  user 1, with user 3, the lookup matches two conversations.
\<close>

theorem createConversation_with_oneself:
  "createConversation ex_empty 1 (Some 2) None (Some ''hi'') 100 = (ex_one, Inr (Some ex_conv, ex_msg)) \<and>
   createConversation ex_one 1 (Some 1) None (Some ''note to self'') 200
     = (ex_self1, Inr (Some (ex_conv\<lparr>lastMessage := Some 12, updatedAt := 200\<rparr>), ex_note1)) \<and>
   createConversation ex_self1 1 (Some 1) None (Some ''note to self'') 210
     = (ex_self2, Inr (Some (ex_conv\<lparr>lastMessage := Some 13, updatedAt := 210\<rparr>), ex_note2)) \<and>
   filter (pairKey 1 1 None) (conversations ex_self2) = [] \<and>
   map participants (conversations ex_self2) = [[1, 2]] \<and>
   conversationId ex_note1 = 10 \<and> conversationId ex_note2 = 10 \<and>
   snd (getMessagesByConversation ex_self2 10 2) = Inr [ex_msg, ex_note1, ex_note2] \<and>
   createConversation ex_one 3 (Some 1) None (Some ''hello'') 150 = (ex_three, Inr (Some ex_conv3, ex_msg3)) \<and>
   filter (convKey 1 1 None) (conversations ex_three) = [ex_conv, ex_conv3] \<and>
   filter (pairKey 1 1 None) (conversations ex_three) = []"
  by code_simp

section \<open>Polling\<close>

text \<open>
  A guard that reads \<open>True\<close> drops the poll, as its comment says; what matters is the
  value the closure holds.
\<close>

lemma guards_drop_when_flag_seen:
  "fetchConversations True True v = v \<and>
   fetchMessagesAndUpdateState True (Some c) False w = w"
  by (simp add: fetchConversations_def fetchMessagesAndUpdateState_def)

text \<open>
  C9 does not hold of the code. The guard of each poller reads its in-flight flag from the
  closure of the render in which the effect ran, where the flag is the constant \<open>False\<close>;
  that the state has become \<open>True\<close> since is not visible to it. In the conversation list
  a firing of the timer during the initial load starts a second request, and so does a
  firing during a poll. In the thread view, mounted on conversation 10 and with the
  conversation loaded, a firing of the timer starts a second message request while the
  first is in flight, and so does a firing during a poll. In each run two requests of
  one poller are outstanding.
\<close>

theorem pollers_overlap:
  "lv_pending (list_run [Mount, Tick]) = [False, True] \<and>
   lv_pending (list_run [Mount, Settle 0 (Resolved []), Tick, Tick]) = [True, True] \<and>
   t_pending (thread_run [Render (Some 10), Reply 0 (ConversationReply ex_conv), Timer])
     = [AwaitMessages 10 True, AwaitMessages 10 False] \<and>
   t_pending (thread_run [Render (Some 10), Reply 0 (ConversationReply ex_conv),
                          Reply 0 (MessagesReply []), Timer, Timer])
     = [AwaitMessages 10 False, AwaitMessages 10 False]"
  by code_simp

end
